theory Spec2Isabelle
  imports Main
begin

section \<open>Configuration model\<close>

text \<open>
  The repository holds two copies of the synchronisation program: \<^verbatim>\<open>main.go\<close>
  (the \<^verbatim>\<open>wptsync\<close> tool with its \<^verbatim>\<open>init\<close>, \<^verbatim>\<open>add\<close> and \<^verbatim>\<open>sync\<close> commands) and an
  older single-command copy that reports its errors as \<^verbatim>\<open>sync-wpt\<close>. The types
  \<^verbatim>\<open>config\<close> and \<^verbatim>\<open>fileSpec\<close> and the functions \<^verbatim>\<open>isEnabled\<close>, \<^verbatim>\<open>processFile\<close>,
  \<^verbatim>\<open>download\<close>, \<^verbatim>\<open>applyPatch\<close> and \<^verbatim>\<open>ensureSupportedPatchFormat\<close> are the same text in
  both; \<^verbatim>\<open>validate\<close> and the top-level \<^verbatim>\<open>runSync\<close>/\<^verbatim>\<open>run\<close> differ and are embedded
  twice, the older copy's under the names \<open>sync_wpt_validate\<close> and \<open>sync_wpt_run\<close>.

  Go strings are byte strings: \<^typ>\<open>string\<close>. A Go \<^verbatim>\<open>error\<close> return is an
  \<open>error option\<close>, \<open>None\<close> being \<^verbatim>\<open>nil\<close>. \<open>ErrWrap c e\<close> is the value of
  \<^verbatim>\<open>fmt.Errorf(c + ": %w", e)\<close>; \<open>ErrMsg m\<close> is an error with no cause whose
  text is \<open>m\<close>.
\<close>

datatype error = ErrMsg string | ErrWrap string error

fun error_text :: "error \<Rightarrow> string" where
  "error_text (ErrMsg m) = m"
| "error_text (ErrWrap c e) = c @ '': '' @ error_text e"

record fileSpec =
  Src :: string
  Dst :: string
  Enabled :: "bool option"
  Patch :: string

record config =
  Commit :: string
  TargetDir :: string
  Files :: "fileSpec list"

definition wptRepoRawURL :: string where
  "wptRepoRawURL = ''https://raw.githubusercontent.com/web-platform-tests/wpt''"

text \<open>\<^verbatim>\<open>return f.Enabled == nil || *f.Enabled\<close>\<close>

definition isEnabled :: "fileSpec \<Rightarrow> bool" where
  "isEnabled f = (case Enabled f of None \<Rightarrow> True | Some b \<Rightarrow> b)"

text \<open>\<^verbatim>\<open>config.validate\<close> of \<^verbatim>\<open>main.go\<close>.\<close>

definition validate :: "config \<Rightarrow> error option" where
  "validate c =
     (if Commit c = [] then Some (ErrMsg ''config: commit hash must be provided'')
      else if TargetDir c = [] then Some (ErrMsg ''config: target_dir must be provided'')
      else None)"

text \<open>\<^verbatim>\<open>config.validate\<close> of the older copy: a third check on the file list.\<close>

definition sync_wpt_validate :: "config \<Rightarrow> error option" where
  "sync_wpt_validate c =
     (if Commit c = [] then Some (ErrMsg ''config: commit hash must be provided'')
      else if TargetDir c = [] then Some (ErrMsg ''config: target_dir must be provided'')
      else if length (Files c) = 0 then Some (ErrMsg ''config: files list cannot be empty'')
      else None)"

section \<open>Library functions: \<^verbatim>\<open>strings\<close> and \<^verbatim>\<open>path/filepath\<close>\<close>

text \<open>
  The program calls into Go's standard library, whose code is not part of the
  repository. The functions it uses are modelled here from their documented
  behaviour on a Unix system, where the path separator is \<^verbatim>\<open>/\<close> and there are no
  volume names.

  \<^verbatim>\<open>strings.TrimLeft(s, cutset)\<close> removes every leading byte of \<open>s\<close> that occurs in
  \<open>cutset\<close> (the program's only cutset is the ASCII string \<^verbatim>\<open>"/"\<close>).
\<close>

definition strings_HasPrefix :: "string \<Rightarrow> string \<Rightarrow> bool" where
  "strings_HasPrefix s p = (take (length p) s = p)"

definition strings_TrimLeft :: "string \<Rightarrow> string \<Rightarrow> string" where
  "strings_TrimLeft s cutset = dropWhile (\<lambda>c. c \<in> set cutset) s"

fun strings_Join :: "string list \<Rightarrow> string \<Rightarrow> string" where
  "strings_Join [] sep = []"
| "strings_Join [e] sep = e"
| "strings_Join (e # es) sep = e @ sep @ strings_Join es sep"

text \<open>The elements of a path: the substrings between separators, empty ones included.\<close>

fun split_sep :: "string \<Rightarrow> string list" where
  "split_sep [] = [[]]"
| "split_sep (c # cs) =
     (if c = CHR ''/'' then [] # split_sep cs
      else (case split_sep cs of [] \<Rightarrow> [[c]] | e # es \<Rightarrow> (c # e) # es))"

text \<open>
  \<^verbatim>\<open>filepath.Clean\<close> reads the path element by element and keeps a buffer of output
  elements. An empty element and \<^verbatim>\<open>.\<close> are dropped; \<^verbatim>\<open>..\<close> removes the last output
  element when there is one that is not itself \<^verbatim>\<open>..\<close>, is dropped at the root of a
  rooted path, and is kept otherwise; any other element is appended. The result
  is the output joined by single separators, after the leading separator of a
  rooted path; an empty result is \<^verbatim>\<open>.\<close>.
\<close>

definition clean_step :: "bool \<Rightarrow> string list \<Rightarrow> string \<Rightarrow> string list" where
  "clean_step rooted out e =
     (if e = [] \<or> e = ''.'' then out
      else if e = ''..'' then
        (if out \<noteq> [] \<and> last out \<noteq> ''..'' then butlast out
         else if rooted then out
         else out @ [''..''])
      else out @ [e])"

definition clean_render :: "bool \<Rightarrow> string list \<Rightarrow> string" where
  "clean_render rooted out =
     (if rooted then CHR ''/'' # strings_Join out ''/''
      else if out = [] then ''.''
      else strings_Join out ''/'')"

definition filepath_Clean :: "string \<Rightarrow> string" where
  "filepath_Clean p =
     (if p = [] then ''.''
      else
        let rooted = (hd p = CHR ''/'')
        in clean_render rooted (foldl (clean_step rooted) [] (split_sep p)))"

text \<open>
  \<^verbatim>\<open>filepath.Join\<close> skips leading empty elements, joins the rest with the separator
  and cleans the result; with no non-empty element the result is empty.
\<close>

fun filepath_Join :: "string list \<Rightarrow> string" where
  "filepath_Join [] = []"
| "filepath_Join (e # es) =
     (if e = [] then filepath_Join es else filepath_Clean (strings_Join (e # es) ''/''))"

text \<open>\<^verbatim>\<open>filepath.Dir\<close>: the path up to and including its last separator, cleaned.\<close>

definition filepath_Dir :: "string \<Rightarrow> string" where
  "filepath_Dir p = filepath_Clean (rev (dropWhile (\<lambda>c. c \<noteq> CHR ''/'') (rev p)))"

definition filepath_IsAbs :: "string \<Rightarrow> bool" where
  "filepath_IsAbs p = strings_HasPrefix p ''/''"

text \<open>\<^verbatim>\<open>filepath.FromSlash\<close> replaces \<^verbatim>\<open>/\<close> by the separator, which is \<^verbatim>\<open>/\<close>.\<close>

definition filepath_FromSlash :: "string \<Rightarrow> string" where
  "filepath_FromSlash p = p"

text \<open>
  \<^verbatim>\<open>strings.TrimSpace\<close> removes leading and trailing white space as Unicode defines
  it. On a byte string these are the six ASCII characters tab, line feed,
  vertical tab, form feed, carriage return and space, and the UTF-8 encodings
  of U+0085, U+00A0, U+1680, U+2000 to U+200A, U+2028, U+2029, U+202F, U+205F
  and U+3000.
\<close>

definition is_space1 :: "char \<Rightarrow> bool" where
  "is_space1 a = (a \<in> set [CHR 0x09, CHR 0x0A, CHR 0x0B, CHR 0x0C, CHR 0x0D, CHR 0x20])"

definition is_space2 :: "char \<Rightarrow> char \<Rightarrow> bool" where
  "is_space2 a b = (a = CHR 0xC2 \<and> (b = CHR 0x85 \<or> b = CHR 0xA0))"

definition is_space3 :: "char \<Rightarrow> char \<Rightarrow> char \<Rightarrow> bool" where
  "is_space3 a b c =
     ((a = CHR 0xE1 \<and> b = CHR 0x9A \<and> c = CHR 0x80)
      \<or> (a = CHR 0xE2 \<and> b = CHR 0x80
          \<and> c \<in> set [CHR 0x80, CHR 0x81, CHR 0x82, CHR 0x83, CHR 0x84, CHR 0x85, CHR 0x86,
                       CHR 0x87, CHR 0x88, CHR 0x89, CHR 0x8A, CHR 0xA8, CHR 0xA9, CHR 0xAF])
      \<or> (a = CHR 0xE2 \<and> b = CHR 0x81 \<and> c = CHR 0x9F)
      \<or> (a = CHR 0xE3 \<and> b = CHR 0x80 \<and> c = CHR 0x80))"

fun trim_left_space :: "string \<Rightarrow> string" where
  "trim_left_space (a # b # c # s) =
     (if is_space1 a then trim_left_space (b # c # s)
      else if is_space2 a b then trim_left_space (c # s)
      else if is_space3 a b c then trim_left_space s
      else a # b # c # s)"
| "trim_left_space [a, b] =
     (if is_space1 a then trim_left_space [b]
      else if is_space2 a b then []
      else [a, b])"
| "trim_left_space [a] = (if is_space1 a then [] else [a])"
| "trim_left_space [] = []"

text \<open>The same from the end, on the reversed string: \<open>c\<close> is the last byte.\<close>

fun trim_right_rev :: "string \<Rightarrow> string" where
  "trim_right_rev (c # b # a # s) =
     (if is_space1 c then trim_right_rev (b # a # s)
      else if is_space2 b c then trim_right_rev (a # s)
      else if is_space3 a b c then trim_right_rev s
      else c # b # a # s)"
| "trim_right_rev [c, b] =
     (if is_space1 c then trim_right_rev [b]
      else if is_space2 b c then []
      else [c, b])"
| "trim_right_rev [c] = (if is_space1 c then [] else [c])"
| "trim_right_rev [] = []"

definition strings_TrimSpace :: "string \<Rightarrow> string" where
  "strings_TrimSpace s = rev (trim_right_rev (rev (trim_left_space s)))"

section \<open>The world outside the program\<close>

text \<open>
  The program acts on a file system, on the network and on standard output, and
  runs \<^verbatim>\<open>git apply\<close>. The state of the world is the content of the regular files
  the program writes, by the path it names them with (a map from paths to
  bytes), and the trace of the calls made so far, in order. Every path the
  program writes to is a result of \<^verbatim>\<open>filepath.Join\<close> or is built on one of
  \<^verbatim>\<open>filepath.Dir\<close>; two such paths are taken to name the same file only when they
  are equal (no links, no case folding). Directories, and what the program
  reads from the file system (the patch file), are not part of the state: they
  are answers of the environment below. An event is recorded when the call is
  made, whether or not it succeeds; \<open>EvCreateTemp\<close> is recorded when the temporary
  file has been created and carries its path.
\<close>

type_synonym path = string
type_synonym bytes = string

datatype event =
    EvPrint string
  | EvHttpGet string
  | EvMkdirAll path
  | EvCreateTemp path
  | EvWrite path bytes
  | EvSync path
  | EvRename path path
  | EvRemove path
  | EvStat path
  | EvOpen path
  | EvGitApply path path

record world =
  files :: "path \<rightharpoonup> bytes"
  trace :: "event list"

record response =
  StatusCode :: nat
  Status :: string
  Body :: bytes

text \<open>
  What the world answers is not decided by the program. Every answer is a field
  of the environment, a function of the world at the moment of the call (the
  trace grows with every call, so the same call may be answered differently
  later):
  \<^item> \<open>new_request\<close>: the error of \<^verbatim>\<open>http.NewRequestWithContext\<close> for a URL, if any;
  \<^item> \<open>http_do\<close>: the outcome of \<^verbatim>\<open>http.DefaultClient.Do\<close>, a transport error
    (the run's deadline included) or a response;
  \<^item> \<open>mkdir_all\<close>, \<open>create_fault\<close>, \<open>sync_fault\<close>, \<open>rename_fault\<close>, \<open>remove_fault\<close>,
    \<open>open_fault\<close>: the error of the corresponding call, if the system refuses
    it;
  \<^item> \<open>temp_random\<close>: the random strings \<^verbatim>\<open>os.CreateTemp\<close> tries, in order;
  \<^item> \<open>copy_fault\<close>: \<open>Some (n, e)\<close> when \<^verbatim>\<open>io.Copy\<close> fails with \<open>e\<close> after \<open>n\<close>
    bytes of the body have reached the temporary file;
  \<^item> \<open>stat_file\<close>: the error \<^verbatim>\<open>os.Stat\<close> returns for a path, if any (a path at
    which nothing exists, a directory that cannot be searched, ...);
  \<^item> \<open>read_file\<close>: what reading an opened file to its end delivers, the bytes
    read and the error that ended the reading, if it was not the end of the
    file (for a directory: no bytes and an error);
  \<^item> \<open>git_apply\<close>: the result of running \<^verbatim>\<open>git apply\<close>, an error or none, and the
    files it leaves.
\<close>

record environment =
  new_request :: "string \<Rightarrow> error option"
  http_do :: "world \<Rightarrow> string \<Rightarrow> error + response"
  mkdir_all :: "world \<Rightarrow> path \<Rightarrow> error option"
  create_fault :: "world \<Rightarrow> path \<Rightarrow> error option"
  temp_random :: "world \<Rightarrow> path \<Rightarrow> string list"
  copy_fault :: "world \<Rightarrow> path \<Rightarrow> (nat \<times> error) option"
  sync_fault :: "world \<Rightarrow> path \<Rightarrow> error option"
  rename_fault :: "world \<Rightarrow> path \<Rightarrow> path \<Rightarrow> error option"
  remove_fault :: "world \<Rightarrow> path \<Rightarrow> error option"
  stat_file :: "world \<Rightarrow> path \<Rightarrow> error option"
  open_fault :: "world \<Rightarrow> path \<Rightarrow> error option"
  read_file :: "world \<Rightarrow> path \<Rightarrow> bytes \<times> error option"
  git_apply :: "world \<Rightarrow> path \<Rightarrow> path \<Rightarrow> error option \<times> (path \<rightharpoonup> bytes)"

definition emit :: "event \<Rightarrow> world \<Rightarrow> world" where
  "emit ev w = w\<lparr>trace := trace w @ [ev]\<rparr>"

text \<open>The events of a run from \<open>w\<close> to \<open>w'\<close>.\<close>

definition new_events :: "world \<Rightarrow> world \<Rightarrow> event list" where
  "new_events w w' = drop (length (trace w)) (trace w')"

fun is_patch_event :: "event \<Rightarrow> bool" where
  "is_patch_event (EvStat p) = True"
| "is_patch_event (EvOpen p) = True"
| "is_patch_event (EvGitApply root p) = True"
| "is_patch_event ev = False"

fun is_print_event :: "event \<Rightarrow> bool" where
  "is_print_event (EvPrint s) = True"
| "is_print_event ev = False"

fun http_url :: "event \<Rightarrow> string option" where
  "http_url (EvHttpGet u) = Some u"
| "http_url ev = None"

fun rename_target :: "event \<Rightarrow> path option" where
  "rename_target (EvRename old new) = Some new"
| "rename_target ev = None"

definition not_exist :: "string \<Rightarrow> path \<Rightarrow> error" where
  "not_exist op p = ErrMsg (op @ '' '' @ p @ '': no such file or directory'')"

text \<open>
  \<^verbatim>\<open>os.CreateTemp(dir, ".wpt-download-*")\<close> replaces the \<^verbatim>\<open>*\<close> by a random string
  and creates the file exclusively: a name that exists is skipped and the next
  random string is tried. (\<open>dir\<close> is never empty here: it is a result of
  \<^verbatim>\<open>filepath.Dir\<close>.)
\<close>

definition temp_name :: "path \<Rightarrow> string \<Rightarrow> path" where
  "temp_name dir r =
     (if dir \<noteq> [] \<and> last dir = CHR ''/'' then dir @ ''.wpt-download-'' @ r
      else dir @ ''/'' @ ''.wpt-download-'' @ r)"

fun first_free :: "(path \<rightharpoonup> bytes) \<Rightarrow> path list \<Rightarrow> path option" where
  "first_free fs [] = None"
| "first_free fs (p # ps) = (if fs p = None then Some p else first_free fs ps)"

definition os_CreateTemp :: "environment \<Rightarrow> path \<Rightarrow> world \<Rightarrow> (error + path) \<times> world" where
  "os_CreateTemp E dir w =
     (case create_fault E w dir of
        Some e \<Rightarrow> (Inl e, w)
      | None \<Rightarrow>
          (case first_free (files w) (map (temp_name dir) (temp_random E w dir)) of
             None \<Rightarrow> (Inl (ErrMsg ''createtemp: file exists''), w)
           | Some p \<Rightarrow> (Inr p, emit (EvCreateTemp p) (w\<lparr>files := (files w)(p \<mapsto> [])\<rparr>))))"

definition write_file :: "path \<Rightarrow> bytes \<Rightarrow> world \<Rightarrow> world" where
  "write_file p data w = emit (EvWrite p data) (w\<lparr>files := (files w)(p \<mapsto> data)\<rparr>)"

text \<open>
  \<^verbatim>\<open>os.Rename\<close> replaces the new path by the old file in one step, or fails and
  changes nothing; renaming a file onto itself succeeds and changes nothing.
\<close>

definition os_Rename :: "environment \<Rightarrow> path \<Rightarrow> path \<Rightarrow> world \<Rightarrow> error option \<times> world" where
  "os_Rename E old new w =
     (let w1 = emit (EvRename old new) w in
      case rename_fault E w old new of
        Some e \<Rightarrow> (Some e, w1)
      | None \<Rightarrow>
          (case files w old of
             None \<Rightarrow> (Some (not_exist ''rename'' old), w1)
           | Some data \<Rightarrow>
               if old = new then (None, w1)
               else (None, w1\<lparr>files := (files w)(new \<mapsto> data, old := None)\<rparr>)))"

text \<open>
  \<^verbatim>\<open>os.Remove\<close>: when the system refuses it nothing changes, otherwise the path
  names no file afterwards. \<open>download\<close> calls it in a deferred function and drops
  the error it returns, so only the world is returned here.
\<close>

definition os_Remove :: "environment \<Rightarrow> path \<Rightarrow> world \<Rightarrow> world" where
  "os_Remove E p w =
     (let w1 = emit (EvRemove p) w in
      case remove_fault E w p of
        Some e \<Rightarrow> w1
      | None \<Rightarrow> w1\<lparr>files := (files w)(p := None)\<rparr>)"

section \<open>The atomic download\<close>

text \<open>
  \<^verbatim>\<open>download\<close> after the temporary file exists: copy the body, sync, rename. The
  deferred \<^verbatim>\<open>tmpFile.Close(); os.Remove(tmpFile.Name())\<close> runs on every path out of
  this part and is the \<open>os_Remove\<close> of \<open>download\<close> below.
\<close>

definition download_body ::
  "environment \<Rightarrow> response \<Rightarrow> path \<Rightarrow> path \<Rightarrow> world \<Rightarrow> error option \<times> world" where
  "download_body E resp tmp dest w =
     (case copy_fault E w tmp of
        Some (n, e) \<Rightarrow> (Some (ErrWrap ''write temp file'' e), write_file tmp (take n (Body resp)) w)
      | None \<Rightarrow>
          let w1 = write_file tmp (Body resp) w;
              w2 = emit (EvSync tmp) w1
          in (case sync_fault E w1 tmp of
                Some e \<Rightarrow> (Some (ErrWrap ''sync temp file'' e), w2)
              | None \<Rightarrow>
                  (case os_Rename E tmp dest w2 of
                     (r, w3) \<Rightarrow>
                       (case r of
                          Some e \<Rightarrow> (Some (ErrWrap ''move file into place'' e), w3)
                        | None \<Rightarrow> (None, w3)))))"

definition download :: "environment \<Rightarrow> string \<Rightarrow> path \<Rightarrow> world \<Rightarrow> error option \<times> world" where
  "download E url dest w =
     (case new_request E url of
        Some e \<Rightarrow> (Some e, w)
      | None \<Rightarrow>
          let w1 = emit (EvHttpGet url) w in
          (case http_do E w url of
             Inl e \<Rightarrow> (Some e, w1)
           | Inr resp \<Rightarrow>
               if StatusCode resp \<noteq> 200
               then (Some (ErrMsg (''unexpected status '' @ Status resp)), w1)
               else
                 let dir = filepath_Dir dest;
                     w2 = emit (EvMkdirAll dir) w1
                 in (case mkdir_all E w1 dir of
                       Some e \<Rightarrow> (Some (ErrWrap ''create destination directory'' e), w2)
                     | None \<Rightarrow>
                         (case os_CreateTemp E dir w2 of
                            (t, w3) \<Rightarrow>
                              (case t of
                                 Inl e \<Rightarrow> (Some (ErrWrap ''create temp file'' e), w3)
                               | Inr tmp \<Rightarrow>
                                   (case download_body E resp tmp dest w3 of
                                      (r, w4) \<Rightarrow> (r, os_Remove E tmp w4)))))))"

section \<open>Applying a patch\<close>

text \<open>
  \<^verbatim>\<open>ensureSupportedPatchFormat\<close> reads the file with a \<^verbatim>\<open>bufio.Scanner\<close> and its
  default line splitter. The scanner's tokens are the lines of the bytes it was
  given, without their line feed; a last line with no line feed is a token too,
  unless it is empty. \<open>scanLines\<close> pairs each line with whether a line feed ended
  it. From each token a trailing carriage return is dropped.
\<close>

fun scan_lines_from :: "string \<Rightarrow> string \<Rightarrow> (string \<times> bool) list" where
  "scan_lines_from cur [] = (if cur = [] then [] else [(cur, False)])"
| "scan_lines_from cur (c # cs) =
     (if c = CHR 0x0A then (cur, True) # scan_lines_from [] cs
      else scan_lines_from (cur @ [c]) cs)"

definition scanLines :: "string \<Rightarrow> (string \<times> bool) list" where
  "scanLines d = scan_lines_from [] d"

definition dropCR :: "string \<Rightarrow> string" where
  "dropCR l = (if l \<noteq> [] \<and> last l = CHR 0x0D then butlast l else l)"

text \<open>
  The scanner's buffer grows to \<^verbatim>\<open>bufio.MaxScanTokenSize\<close> bytes and no further:
  when that many bytes hold no line feed, \<^verbatim>\<open>Scan\<close> returns false and \<^verbatim>\<open>Err\<close> is
  \<^verbatim>\<open>bufio.ErrTooLong\<close>. A read error ends the scan after the bytes read before it;
  \<^verbatim>\<open>Err\<close> then returns it, once the scanner has had to read past those bytes,
  which it has when it returns a last line that no line feed ended.
\<close>

definition bufio_MaxScanTokenSize :: nat where
  "bufio_MaxScanTokenSize = 64 * 1024"

definition ErrTooLong :: error where
  "ErrTooLong = ErrMsg ''bufio.Scanner: token too long''"

datatype scan_outcome = FoundSentinel | ScanEnded "error option"

text \<open>
  The loop of \<^verbatim>\<open>ensureSupportedPatchFormat\<close> over the tokens, \<open>rerr\<close> being the read
  error that follows them, if any: \<open>FoundSentinel\<close> is the \<^verbatim>\<open>return\<close> inside the
  loop, \<open>ScanEnded e\<close> the end of the loop with \<^verbatim>\<open>scanner.Err()\<close> equal to \<open>e\<close>.
\<close>

fun scan_patch :: "(string \<times> bool) list \<Rightarrow> error option \<Rightarrow> scan_outcome" where
  "scan_patch [] rerr = ScanEnded rerr"
| "scan_patch ((raw, terminated) # ts) rerr =
     (if bufio_MaxScanTokenSize \<le> length raw then ScanEnded (Some ErrTooLong)
      else
        let line = strings_TrimSpace (dropCR raw) in
        if line = [] then scan_patch ts rerr
        else if strings_HasPrefix line ''*** Begin Patch'' then FoundSentinel
        else ScanEnded (if terminated then None else rerr))"

definition wrong_format :: "path \<Rightarrow> error" where
  "wrong_format p =
     ErrMsg (''patch '' @ p @ '' looks like apply_patch format; regenerate it with `git diff > ''
             @ p @ ''` so git apply can read it'')"

definition ensureSupportedPatchFormat ::
  "environment \<Rightarrow> path \<Rightarrow> world \<Rightarrow> error option \<times> world" where
  "ensureSupportedPatchFormat E p w =
     (let w1 = emit (EvOpen p) w in
      case open_fault E w p of
        Some e \<Rightarrow> (Some (ErrWrap (''open patch '' @ p) e), w1)
      | None \<Rightarrow>
          (case read_file E w p of
             (delivered, rerr) \<Rightarrow>
               (case scan_patch (scanLines delivered) rerr of
                  FoundSentinel \<Rightarrow> (Some (wrong_format p), w1)
                | ScanEnded (Some e) \<Rightarrow> (Some (ErrWrap (''read patch '' @ p) e), w1)
                | ScanEnded None \<Rightarrow> (None, w1))))"

definition applyPatch :: "environment \<Rightarrow> path \<Rightarrow> path \<Rightarrow> world \<Rightarrow> error option \<times> world" where
  "applyPatch E root patchPath w =
     (let absPatch = (if filepath_IsAbs patchPath then patchPath else filepath_Join [root, patchPath]);
          w1 = emit (EvStat absPatch) w
      in case stat_file E w absPatch of
           Some e \<Rightarrow> (Some (ErrWrap ''stat patch'' e), w1)
         | None \<Rightarrow>
             (case ensureSupportedPatchFormat E absPatch w1 of
                (r, w2) \<Rightarrow>
                  (case r of
                     Some e \<Rightarrow> (Some e, w2)
                   | None \<Rightarrow>
                       let w3 = emit (EvGitApply root absPatch) w2 in
                       (case git_apply E w2 root absPatch of
                          (g, fs) \<Rightarrow>
                            (case g of
                               Some e \<Rightarrow> (Some (ErrWrap ''git apply failed'' e), w3\<lparr>files := fs\<rparr>)
                             | None \<Rightarrow> (None, w3\<lparr>files := fs\<rparr>))))))"

text \<open>The value of the local variable \<^verbatim>\<open>absPatch\<close> of \<open>applyPatch\<close>, for the statements below.\<close>

definition patch_path :: "path \<Rightarrow> path \<Rightarrow> path" where
  "patch_path root patchPath =
     (if filepath_IsAbs patchPath then patchPath else filepath_Join [root, patchPath])"

section \<open>The sync pipeline\<close>

definition planned_line :: "string \<Rightarrow> path \<Rightarrow> string" where
  "planned_line src dest = '' - '' @ src @ '' -> '' @ dest @ [CHR 0x0A]"

definition processFile ::
  "environment \<Rightarrow> path \<Rightarrow> config \<Rightarrow> fileSpec \<Rightarrow> bool \<Rightarrow> bool \<Rightarrow> world \<Rightarrow> error option \<times> world" where
  "processFile E root cfg file skipPatching dryRun w =
     (let src = strings_TrimLeft (Src file) ''/'';
          url = wptRepoRawURL @ ''/'' @ Commit cfg @ ''/'' @ src;
          dest = filepath_Join [root, TargetDir cfg, filepath_FromSlash (Dst file)];
          w1 = emit (EvPrint (planned_line src dest)) w
      in if dryRun then (None, w1)
         else
           (case download E url dest w1 of
              (r, w2) \<Rightarrow>
                (case r of
                   Some e \<Rightarrow> (Some (ErrWrap (''download '' @ src) e), w2)
                 | None \<Rightarrow>
                     if skipPatching \<or> Patch file = [] then (None, w2)
                     else
                       (case applyPatch E root (Patch file) w2 of
                          (r', w3) \<Rightarrow>
                            (case r' of
                               Some e \<Rightarrow> (Some (ErrWrap (''apply patch '' @ Patch file) e), w3)
                             | None \<Rightarrow> (None, w3))))))"

text \<open>
  The values of the local variables \<^verbatim>\<open>src\<close>, \<^verbatim>\<open>url\<close> and \<^verbatim>\<open>dest\<close> of \<open>processFile\<close>, for
  the statements below.
\<close>

definition file_src :: "fileSpec \<Rightarrow> string" where
  "file_src file = strings_TrimLeft (Src file) ''/''"

definition file_url :: "config \<Rightarrow> fileSpec \<Rightarrow> string" where
  "file_url cfg file = wptRepoRawURL @ ''/'' @ Commit cfg @ ''/'' @ strings_TrimLeft (Src file) ''/''"

definition file_dest :: "path \<Rightarrow> config \<Rightarrow> fileSpec \<Rightarrow> path" where
  "file_dest root cfg file = filepath_Join [root, TargetDir cfg, filepath_FromSlash (Dst file)]"

text \<open>The \<^verbatim>\<open>for _, file := range cfg.Files\<close> loop of \<^verbatim>\<open>runSync\<close> and of \<^verbatim>\<open>run\<close>.\<close>

definition skipping_line :: "fileSpec \<Rightarrow> string" where
  "skipping_line file = '' - skipping '' @ Src file @ '' (disabled)'' @ [CHR 0x0A]"

fun sync_files ::
  "environment \<Rightarrow> path \<Rightarrow> config \<Rightarrow> bool \<Rightarrow> bool \<Rightarrow> fileSpec list \<Rightarrow> world \<Rightarrow> error option \<times> world" where
  "sync_files E root cfg skipPatching dryRun [] w = (None, w)"
| "sync_files E root cfg skipPatching dryRun (file # rest) w =
     (if \<not> isEnabled file
      then sync_files E root cfg skipPatching dryRun rest (emit (EvPrint (skipping_line file)) w)
      else
        (case processFile E root cfg file skipPatching dryRun w of
           (r, w') \<Rightarrow>
             (case r of
                Some e \<Rightarrow> (Some e, w')
              | None \<Rightarrow> sync_files E root cfg skipPatching dryRun rest w')))"

text \<open>The decimal digits of a number, as \<^verbatim>\<open>%d\<close> prints it.\<close>

fun show_nat :: "nat \<Rightarrow> string" where
  "show_nat n =
     (if n < 10 then [char_of (48 + n)] else show_nat (n div 10) @ [char_of (48 + n mod 10)])"

declare show_nat.simps [simp del]

definition syncing_line :: "config \<Rightarrow> string" where
  "syncing_line cfg =
     ''Syncing '' @ show_nat (length (Files cfg)) @ '' WPT files from '' @ wptRepoRawURL
     @ '' at commit '' @ Commit cfg @ [CHR 0x0A]"

text \<open>
  \<^verbatim>\<open>runSync\<close> of \<^verbatim>\<open>main.go\<close>. Its first two steps compute the absolute directory of
  the configuration file and decode the file; their results, an error or a
  value each, are the arguments \<open>absRoot\<close> and \<open>loaded\<close>. \<^verbatim>\<open>loadConfig\<close> wraps its own
  errors.
\<close>

definition runSync ::
  "environment \<Rightarrow> error + path \<Rightarrow> error + config \<Rightarrow> bool \<Rightarrow> bool \<Rightarrow> world \<Rightarrow> error option \<times> world" where
  "runSync E absRoot loaded skipPatching dryRun w =
     (case absRoot of
        Inl e \<Rightarrow> (Some (ErrWrap ''determine repo root from config'' e), w)
      | Inr root \<Rightarrow>
          (case loaded of
             Inl e \<Rightarrow> (Some e, w)
           | Inr cfg \<Rightarrow>
               (case validate cfg of
                  Some e \<Rightarrow> (Some e, w)
                | None \<Rightarrow>
                    if length (Files cfg) = 0
                    then (None, emit (EvPrint (''No files configured to sync.'' @ [CHR 0x0A])) w)
                    else sync_files E root cfg skipPatching dryRun (Files cfg)
                           (emit (EvPrint (syncing_line cfg)) w))))"

text \<open>\<^verbatim>\<open>run\<close> of the older copy.\<close>

definition sync_wpt_run ::
  "environment \<Rightarrow> error + path \<Rightarrow> error + config \<Rightarrow> bool \<Rightarrow> bool \<Rightarrow> world \<Rightarrow> error option \<times> world" where
  "sync_wpt_run E absRoot loaded skipPatching dryRun w =
     (case absRoot of
        Inl e \<Rightarrow> (Some (ErrWrap ''determine repo root from config'' e), w)
      | Inr root \<Rightarrow>
          (case loaded of
             Inl e \<Rightarrow> (Some e, w)
           | Inr cfg \<Rightarrow>
               (case sync_wpt_validate cfg of
                  Some e \<Rightarrow> (Some e, w)
                | None \<Rightarrow>
                    sync_files E root cfg skipPatching dryRun (Files cfg)
                      (emit (EvPrint (syncing_line cfg)) w))))"

section \<open>A sample world\<close>

text \<open>
  The concrete inputs of the examples below: an environment with no fault, whose
  server answers 404 for one file and 200 for the others and in which the
  files that can be read are the files of the state, and a configuration of
  four entries under the root \<^verbatim>\<open>/r\<close>.
\<close>

definition sample_env :: "(string \<Rightarrow> error + response) \<Rightarrow> environment" where
  "sample_env h =
     \<lparr>new_request = (\<lambda>u. None),
      http_do = (\<lambda>w. h),
      mkdir_all = (\<lambda>w p. None),
      create_fault = (\<lambda>w p. None),
      temp_random = (\<lambda>w p. [''1234'']),
      copy_fault = (\<lambda>w p. None),
      sync_fault = (\<lambda>w p. None),
      rename_fault = (\<lambda>w old new. None),
      remove_fault = (\<lambda>w p. None),
      stat_file = (\<lambda>w p. case files w p of None \<Rightarrow> Some (not_exist ''stat'' p) | Some d \<Rightarrow> None),
      open_fault = (\<lambda>w p. None),
      read_file = (\<lambda>w p. case files w p of None \<Rightarrow> ([], Some (not_exist ''read'' p))
                                          | Some d \<Rightarrow> (d, None)),
      git_apply = (\<lambda>w root p. (None, files w))\<rparr>"

definition ok_response :: "bytes \<Rightarrow> response" where
  "ok_response b = \<lparr>StatusCode = 200, Status = ''200 OK'', Body = b\<rparr>"

definition not_found_response :: response where
  "not_found_response = \<lparr>StatusCode = 404, Status = ''404 Not Found'', Body = []\<rparr>"

definition sample_http :: "string \<Rightarrow> error + response" where
  "sample_http url =
     (if url = wptRepoRawURL @ ''/deadbeef/gone.js'' then Inr not_found_response
      else Inr (ok_response ''console.log(1)''))"

definition copy_fault_env :: environment where
  "copy_fault_env =
     (sample_env sample_http)\<lparr>copy_fault := (\<lambda>w p. Some (3, ErrMsg ''unexpected EOF''))\<rparr>"

text \<open>The copy fails after three bytes, and the system then refuses every unlink.\<close>

definition stuck_temp_env :: environment where
  "stuck_temp_env =
     copy_fault_env\<lparr>remove_fault := (\<lambda>w p. Some (ErrMsg ''read-only file system''))\<rparr>"

definition sample_world :: world where
  "sample_world =
     \<lparr>files = [''/r/out/a/b.js'' \<mapsto> ''old'', ''/r/fix.patch'' \<mapsto> ''diff --git a/x b/x''],
      trace = []\<rparr>"

definition entry_a :: fileSpec where
  "entry_a = \<lparr>Src = ''/a/b.js'', Dst = ''/a/b.js'', Enabled = None, Patch = ''fix.patch''\<rparr>"

definition entry_off :: fileSpec where
  "entry_off = \<lparr>Src = ''off.js'', Dst = ''off.js'', Enabled = Some False, Patch = []\<rparr>"

definition entry_gone :: fileSpec where
  "entry_gone = \<lparr>Src = ''gone.js'', Dst = ''gone.js'', Enabled = Some True, Patch = []\<rparr>"

definition entry_c :: fileSpec where
  "entry_c = \<lparr>Src = ''c.js'', Dst = ''c.js'', Enabled = None, Patch = []\<rparr>"

definition sample_config :: config where
  "sample_config =
     \<lparr>Commit = ''deadbeef'', TargetDir = ''out'', Files = [entry_off, entry_a, entry_gone, entry_c]\<rparr>"

text \<open>The world after \<open>entry_a\<close> has been downloaded into \<open>sample_world\<close>.\<close>

definition downloaded_world :: world where
  "downloaded_world =
     \<lparr>files = [''/r/out/a/b.js'' \<mapsto> ''console.log(1)'', ''/r/fix.patch'' \<mapsto> ''diff --git a/x b/x''],
      trace = [EvPrint '' - a/b.js -> /r/out/a/b.js\<newline>'',
               EvHttpGet (wptRepoRawURL @ ''/deadbeef/a/b.js''),
               EvMkdirAll ''/r/out/a'', EvCreateTemp ''/r/out/a/.wpt-download-1234'',
               EvWrite ''/r/out/a/.wpt-download-1234'' ''console.log(1)'',
               EvSync ''/r/out/a/.wpt-download-1234'',
               EvRename ''/r/out/a/.wpt-download-1234'' ''/r/out/a/b.js'',
               EvRemove ''/r/out/a/.wpt-download-1234'']\<rparr>"

text \<open>
  Two patch files in the format that \<^verbatim>\<open>git apply\<close> cannot read: one whose only
  line is the sentinel followed by 64 KiB of text with no line feed, and one
  whose sentinel line follows two blank lines.
\<close>

definition long_patch :: bytes where
  "long_patch = ''*** Begin Patch'' @ replicate bufio_MaxScanTokenSize CHR ''x''"

definition long_patch_world :: world where
  "long_patch_world = \<lparr>files = [''/r/fix.patch'' \<mapsto> long_patch], trace = []\<rparr>"

definition sentinel_patch :: bytes where
  "sentinel_patch = [CHR 0x0D, CHR 0x0A, CHR '' '', CHR 0x0A] @ ''  *** Begin Patch'' @ [CHR 0x0A] @ ''*** End Patch''"

definition sentinel_patch_world :: world where
  "sentinel_patch_world = \<lparr>files = [''/r/fix.patch'' \<mapsto> sentinel_patch], trace = []\<rparr>"

text \<open>An entry whose \<^verbatim>\<open>dst\<close> begins with the parent directory.\<close>

definition entry_up :: fileSpec where
  "entry_up = \<lparr>Src = ''c.js'', Dst = ''../c.js'', Enabled = None, Patch = []\<rparr>"



section \<open>Notions used in the proofs\<close>

text \<open>
  An element that the loop of \<^verbatim>\<open>filepath.Clean\<close> appends to its output, and the
  shape of that output at every moment: some \<^verbatim>\<open>..\<close> elements, none in a rooted
  path, then elements of the first kind.
\<close>

definition plain_elem :: "string \<Rightarrow> bool" where
  "plain_elem e = (e \<noteq> [] \<and> e \<noteq> ''.'' \<and> e \<noteq> ''..'' \<and> CHR ''/'' \<notin> set e)"

definition clean_out :: "bool \<Rightarrow> string list \<Rightarrow> bool" where
  "clean_out rooted out =
     (\<exists>k ns. out = replicate k ''..'' @ ns \<and> list_all plain_elem ns \<and> (rooted \<longrightarrow> k = 0))"

text \<open>
  The events of \<open>download\<close> from the creation of the temporary file \<open>tmp\<close> on,
  when the download fails after that point or succeeds.
\<close>

definition temp_events :: "path \<Rightarrow> path \<Rightarrow> bytes \<Rightarrow> event list set" where
  "temp_events tmp dest body =
     {[EvCreateTemp tmp, EvWrite tmp (take n body), EvRemove tmp] | n. True}
     \<union> {[EvCreateTemp tmp, EvWrite tmp body, EvSync tmp, EvRemove tmp],
         [EvCreateTemp tmp, EvWrite tmp body, EvSync tmp, EvRename tmp dest, EvRemove tmp]}"


text \<open>
  A cleaned path \<open>p\<close> lies under the cleaned directory \<open>base\<close>: it is \<open>base\<close> itself
  or \<open>base\<close>, a separator and more (the root directory already ends with the
  separator).
\<close>

definition resolved_under :: "path \<Rightarrow> path \<Rightarrow> bool" where
  "resolved_under base p =
     (p = base \<or> strings_HasPrefix p (if base = ''/'' then base else base @ ''/''))"

lemmas sample_defs =
  sample_env_def ok_response_def not_found_response_def sample_http_def sample_world_def
  copy_fault_env_def stuck_temp_env_def downloaded_world_def long_patch_world_def sentinel_patch_world_def entry_a_def entry_off_def entry_gone_def entry_c_def sample_config_def
  wptRepoRawURL_def

lemmas run_defs =
  download_def download_body_def os_CreateTemp_def os_Rename_def os_Remove_def write_file_def
  emit_def temp_name_def not_exist_def new_events_def planned_line_def
  filepath_Dir_def filepath_Clean_def clean_step_def clean_render_def filepath_FromSlash_def
  filepath_IsAbs_def strings_HasPrefix_def strings_TrimLeft_def
  file_src_def file_url_def file_dest_def patch_path_def
  processFile_def isEnabled_def Let_def

lemmas patch_defs =
  applyPatch_def ensureSupportedPatchFormat_def scanLines_def dropCR_def
  strings_TrimSpace_def is_space1_def is_space2_def is_space3_def bufio_MaxScanTokenSize_def

section \<open>Facts about the path functions\<close>

lemma split_sep_nonempty: "split_sep s \<noteq> []"
  by (induction s) (auto split: list.splits)

lemma split_sep_append:
  "split_sep (a @ CHR ''/'' # b) = split_sep a @ split_sep b"
proof (induction a)
  case Nil
  then show ?case by simp
next
  case (Cons c a)
  then show ?case
    using split_sep_nonempty [of a]
    by (cases "split_sep a") auto
qed

lemma split_sep_no_slash: "e \<in> set (split_sep s) \<Longrightarrow> CHR ''/'' \<notin> set e"
  by (induction s arbitrary: e) (auto split: if_splits list.splits)

lemma split_sep_no_slash_id: "CHR ''/'' \<notin> set e \<Longrightarrow> split_sep e = [e]"
  by (induction e) auto

lemma split_sep_Join:
  "es \<noteq> [] \<Longrightarrow> \<forall>e \<in> set es. CHR ''/'' \<notin> set e \<Longrightarrow> split_sep (strings_Join es ''/'') = es"
proof (induction es "''/''" rule: strings_Join.induct)
  case 1
  then show ?case by simp
next
  case (2 e)
  then show ?case by (simp add: split_sep_no_slash_id)
next
  case (3 e v va)
  then show ?case
    using split_sep_append [of e "strings_Join (v # va) ''/''"]
    by (simp add: split_sep_no_slash_id)
qed

lemma clean_out_Nil: "clean_out rooted []"
  by (simp add: clean_out_def)

lemma clean_step_out:
  assumes "clean_out rooted out" and "CHR ''/'' \<notin> set e"
  shows "clean_out rooted (clean_step rooted out e)"
proof -
  from assms(1) obtain k ns where
    out: "out = replicate k ''..'' @ ns" and ns: "list_all plain_elem ns" and k: "rooted \<longrightarrow> k = 0"
    by (auto simp: clean_out_def)
  consider (skip) "e = [] \<or> e = ''.''" | (up) "e = ''..''" | (copy) "plain_elem e"
    using assms(2) by (auto simp: plain_elem_def)
  then show ?thesis
  proof cases
    case skip
    then show ?thesis using assms(1) by (auto simp: clean_step_def)
  next
    case copy
    then have "clean_step rooted out e = replicate k ''..'' @ (ns @ [e])"
      by (auto simp: clean_step_def plain_elem_def out)
    moreover have "list_all plain_elem (ns @ [e])" using ns copy by simp
    ultimately show ?thesis using k unfolding clean_out_def by blast
  next
    case up
    show ?thesis
    proof (cases "ns = []")
      case True
      then have "out = replicate k ''..''" by (simp add: out)
      then have "clean_step rooted out e = (if rooted then out else replicate (Suc k) ''..'' @ [])"
        using up by (cases k) (auto simp: clean_step_def replicate_append_same)
      then show ?thesis
      proof (cases rooted)
        case True
        with \<open>clean_step rooted out e = _\<close> show ?thesis using assms(1) by simp
      next
        case False
        with \<open>clean_step rooted out e = _\<close>
        have "clean_step rooted out e = replicate (Suc k) ''..'' @ [] \<and> list_all plain_elem []
              \<and> (rooted \<longrightarrow> Suc k = 0)"
          by simp
        then show ?thesis unfolding clean_out_def by blast
      qed
    next
      case False
      then have l: "last out = last ns" "out \<noteq> []" by (simp_all add: out)
      have "plain_elem (last ns)" using ns False by (simp add: list_all_iff)
      then have "last ns \<noteq> ''..''" by (auto simp: plain_elem_def)
      then have "clean_step rooted out e = replicate k ''..'' @ butlast ns"
        using up l False by (simp add: clean_step_def out butlast_append)
      moreover have "list_all plain_elem (butlast ns)"
        using ns by (auto simp: list_all_iff dest: in_set_butlastD)
      ultimately show ?thesis using k unfolding clean_out_def by blast
    qed
  qed
qed

lemma foldl_clean_out:
  "clean_out rooted out \<Longrightarrow> \<forall>e \<in> set es. CHR ''/'' \<notin> set e \<Longrightarrow>
   clean_out rooted (foldl (clean_step rooted) out es)"
  by (induction es arbitrary: out) (auto intro: clean_step_out)

lemma foldl_clean_plain:
  "list_all plain_elem ns \<Longrightarrow> foldl (clean_step rooted) out ns = out @ ns"
  by (induction ns arbitrary: out) (auto simp: clean_step_def plain_elem_def)

lemma foldl_clean_dotdot:
  "foldl (clean_step False) (replicate j ''..'') (replicate k ''..'') = replicate (j + k) ''..''"
proof (induction k arbitrary: j)
  case 0
  then show ?case by simp
next
  case (Suc k)
  have step: "clean_step False (replicate j ''..'') ''..'' = replicate (Suc j) ''..''"
    by (cases j) (auto simp: clean_step_def replicate_append_same)
  have "foldl (clean_step False) (replicate j ''..'') (replicate (Suc k) ''..'')
        = foldl (clean_step False) (clean_step False (replicate j ''..'') ''..'') (replicate k ''..'')"
    by simp
  also have "\<dots> = foldl (clean_step False) (replicate (Suc j) ''..'') (replicate k ''..'')"
    by (simp only: step)
  also have "\<dots> = replicate (Suc j + k) ''..''"
    by (rule Suc)
  finally show ?case by simp
qed

lemma foldl_clean_again:
  assumes "clean_out rooted out"
  shows "foldl (clean_step rooted) [] out = out"
proof -
  from assms obtain k ns where
    out: "out = replicate k ''..'' @ ns" and ns: "list_all plain_elem ns" and k: "rooted \<longrightarrow> k = 0"
    by (auto simp: clean_out_def)
  show ?thesis
  proof (cases rooted)
    case True
    then show ?thesis using out ns k by (simp add: foldl_clean_plain)
  next
    case False
    have "foldl (clean_step False) [] (replicate k ''..'') = replicate k ''..''"
      using foldl_clean_dotdot [of 0 k] by simp
    then show ?thesis using False out ns by (simp add: foldl_clean_plain)
  qed
qed

lemma clean_out_no_slash:
  assumes "clean_out rooted out" and "e \<in> set out"
  shows "CHR ''/'' \<notin> set e"
proof -
  from assms(1) obtain k ns where
    out: "out = replicate k ''..'' @ ns" and ns: "list_all plain_elem ns"
    unfolding clean_out_def by blast
  from assms(2) out have "e = ''..'' \<or> e \<in> set ns" by auto
  then show ?thesis
  proof
    assume "e = ''..''"
    then show ?thesis by simp
  next
    assume "e \<in> set ns"
    with ns have "plain_elem e" by (simp add: list_all_iff)
    then show ?thesis by (simp add: plain_elem_def)
  qed
qed

lemma strings_Join_hd:
  "e \<noteq> [] \<Longrightarrow> strings_Join (e # es) sep \<noteq> [] \<and> hd (strings_Join (e # es) sep) = hd e"
  by (cases es) auto

lemma clean_out_hd:
  assumes "clean_out rooted out" and "out \<noteq> []"
  shows "strings_Join out ''/'' \<noteq> [] \<and> hd (strings_Join out ''/'') \<noteq> CHR ''/''"
proof -
  from assms(2) obtain e es where out: "out = e # es" by (cases out) auto
  from assms(1) obtain k ns where
    kn: "e # es = replicate k ''..'' @ ns" and ns: "list_all plain_elem ns"
    unfolding clean_out_def out by blast
  have "e = ''..'' \<or> plain_elem e"
  proof (cases k)
    case 0
    then show ?thesis using kn ns by (cases ns) auto
  next
    case (Suc k')
    then show ?thesis using kn by simp
  qed
  then have "e \<noteq> [] \<and> hd e \<noteq> CHR ''/''"
  proof
    assume "e = ''..''"
    then show ?thesis by simp
  next
    assume "plain_elem e"
    then have "e \<noteq> []" and "CHR ''/'' \<notin> set e" by (simp_all add: plain_elem_def)
    then show ?thesis using hd_in_set [of e] by metis
  qed
  then show ?thesis using strings_Join_hd [of e es "''/''"] out by simp
qed

lemma clean_render_hd:
  "clean_out rooted out \<Longrightarrow>
   clean_render rooted out \<noteq> [] \<and> (hd (clean_render rooted out) = CHR ''/'') = rooted"
  using clean_out_hd [of rooted out] by (simp add: clean_render_def)

lemma foldl_clean_split_render:
  assumes "clean_out rooted out"
  shows "foldl (clean_step rooted) [] (split_sep (clean_render rooted out)) = out"
proof -
  have again: "foldl (clean_step rooted) [] out = out"
    by (rule foldl_clean_again [OF assms])
  have sp: "out \<noteq> [] \<Longrightarrow> split_sep (strings_Join out ''/'') = out"
    using assms by (intro split_sep_Join) (auto dest: clean_out_no_slash)
  show ?thesis
  proof (cases "out = []")
    case True
    then show ?thesis by (simp add: clean_render_def clean_step_def)
  next
    case False
    then show ?thesis using sp again
      by (cases rooted) (simp_all add: clean_render_def clean_step_def)
  qed
qed

lemma clean_out_split: "clean_out rooted (foldl (clean_step rooted) [] (split_sep p))"
  by (intro foldl_clean_out clean_out_Nil) (simp add: split_sep_no_slash)

lemma filepath_Clean_nonempty: "filepath_Clean p \<noteq> []"
  using clean_render_hd [OF clean_out_split] by (simp add: filepath_Clean_def Let_def)

lemma filepath_Clean_rooted:
  "p \<noteq> [] \<Longrightarrow> (hd (filepath_Clean p) = CHR ''/'') = (hd p = CHR ''/'')"
  using clean_render_hd [OF clean_out_split] by (simp add: filepath_Clean_def Let_def)

lemma foldl_clean_split_Clean:
  assumes "p \<noteq> []"
  shows "foldl (clean_step (hd p = CHR ''/'')) [] (split_sep (filepath_Clean p))
         = foldl (clean_step (hd p = CHR ''/'')) [] (split_sep p)"
  using assms foldl_clean_split_render [OF clean_out_split]
  by (simp add: filepath_Clean_def Let_def)

lemma filepath_Clean_join:
  assumes "p \<noteq> []"
  shows "filepath_Clean (filepath_Clean p @ CHR ''/'' # q) = filepath_Clean (p @ CHR ''/'' # q)"
proof -
  define c where "c = filepath_Clean p"
  have ne: "c \<noteq> []" unfolding c_def by (rule filepath_Clean_nonempty)
  have r: "(hd c = CHR ''/'') = (hd p = CHR ''/'')"
    unfolding c_def by (rule filepath_Clean_rooted [OF assms])
  have f: "foldl (clean_step (hd p = CHR ''/'')) [] (split_sep c)
           = foldl (clean_step (hd p = CHR ''/'')) [] (split_sep p)"
    unfolding c_def by (rule foldl_clean_split_Clean [OF assms])
  have "filepath_Clean (c @ CHR ''/'' # q) = filepath_Clean (p @ CHR ''/'' # q)"
    using assms ne r f by (simp add: filepath_Clean_def split_sep_append Let_def)
  then show ?thesis by (simp add: c_def)
qed

lemma clean_step_empty: "clean_step rooted out [] = out"
  by (simp add: clean_step_def)


lemma filepath_Clean_leading:
  assumes "p \<noteq> []"
  shows "filepath_Clean (p @ CHR ''/'' # CHR ''/'' # q) = filepath_Clean (p @ CHR ''/'' # q)"
proof -
  have "split_sep (p @ CHR ''/'' # CHR ''/'' # q) = split_sep p @ [] # split_sep q"
    using split_sep_append [of p "CHR ''/'' # q"] by simp
  moreover have "split_sep (p @ CHR ''/'' # q) = split_sep p @ split_sep q"
    by (rule split_sep_append)
  ultimately show ?thesis
    using assms by (simp add: filepath_Clean_def Let_def clean_step_empty)
qed

lemma filepath_Join3:
  "filepath_Join [a, b, c] = filepath_Join [filepath_Join [a, b], c]"
proof (cases "a = []")
  case False
  then show ?thesis
    using filepath_Clean_join [of "a @ CHR ''/'' # b" c] filepath_Clean_nonempty [of "a @ CHR ''/'' # b"]
    by simp
next
  case True
  show ?thesis
  proof (cases "b = []")
    case True
    with \<open>a = []\<close> show ?thesis by simp
  next
    case False
    with \<open>a = []\<close> show ?thesis
      using filepath_Clean_join [of b c] filepath_Clean_nonempty [of b]
      by simp
  qed
qed


lemma filepath_Join_leading_slash:
  "a \<noteq> [] \<Longrightarrow> filepath_Join [a, b, CHR ''/'' # c] = filepath_Join [a, b, c]"
  using filepath_Clean_leading [of "a @ CHR ''/'' # b" c] by simp

section \<open>Facts about the atomic download\<close>

lemma first_free_Some: "first_free fs ps = Some p \<Longrightarrow> fs p = None \<and> p \<in> set ps"
  by (induction ps) (auto split: if_splits)

lemma os_CreateTemp_Inr:
  assumes "os_CreateTemp E dir w = (Inr tmp, w3)"
  shows "files w tmp = None \<and> files w3 = (files w)(tmp \<mapsto> []) \<and> trace w3 = trace w @ [EvCreateTemp tmp]
         \<and> tmp \<in> temp_name dir ` set (temp_random E w dir)"
  using assms first_free_Some [of "files w" "map (temp_name dir) (temp_random E w dir)"]
  by (auto simp: os_CreateTemp_def emit_def split: option.splits)

lemma os_CreateTemp_Inl: "os_CreateTemp E dir w = (Inl e, w3) \<Longrightarrow> w3 = w"
  by (auto simp: os_CreateTemp_def split: option.splits)

lemma os_Rename_cases:
  assumes "os_Rename E old new w = (r, w')"
  shows "trace w' = trace w @ [EvRename old new]
         \<and> (case r of
               Some e \<Rightarrow> files w' = files w
             | None \<Rightarrow> (\<exists>data. files w old = Some data
                          \<and> files w' = (if old = new then files w else (files w)(new \<mapsto> data, old := None))))"
  using assms by (auto simp: os_Rename_def emit_def Let_def split: option.splits if_splits)

lemma download_body_Some:
  assumes "download_body E resp tmp dest w = (Some e, w')"
  shows "(\<exists>data. files w' = (files w)(tmp \<mapsto> data))
         \<and> (\<exists>evs. trace w' = trace w @ evs
               \<and> (\<exists>n. evs = [EvWrite tmp (take n (Body resp))]
                      \<or> evs = [EvWrite tmp (Body resp), EvSync tmp]
                      \<or> evs = [EvWrite tmp (Body resp), EvSync tmp, EvRename tmp dest]))"
proof (cases "copy_fault E w tmp")
  case (Some a)
  then show ?thesis using assms
    by (cases a) (auto simp: download_body_def write_file_def emit_def)
next
  case None
  define w1 where "w1 = write_file tmp (Body resp) w"
  define w2 where "w2 = emit (EvSync tmp) w1"
  have f2: "files w2 = (files w)(tmp \<mapsto> Body resp)"
    and t2: "trace w2 = trace w @ [EvWrite tmp (Body resp), EvSync tmp]"
    by (simp_all add: w1_def w2_def write_file_def emit_def)
  show ?thesis
  proof (cases "sync_fault E w1 tmp")
    case (Some e')
    then have "w' = w2" using assms None
      by (simp add: download_body_def Let_def w1_def w2_def)
    then show ?thesis using f2 t2 by auto
  next
    case nosync: None
    obtain r w3 where rn: "os_Rename E tmp dest w2 = (r, w3)" by (cases "os_Rename E tmp dest w2")
    with assms None nosync obtain e' where r: "r = Some e'" and "w' = w3"
      by (auto simp: download_body_def Let_def w1_def w2_def split: option.splits)
    then show ?thesis using os_Rename_cases [OF rn] f2 t2 by auto
  qed
qed

lemma download_body_None:
  assumes "download_body E resp tmp dest w = (None, w')"
  shows "files w' = (if tmp = dest then (files w)(tmp \<mapsto> Body resp)
                     else (files w)(dest \<mapsto> Body resp, tmp := None))
         \<and> trace w' = trace w @ [EvWrite tmp (Body resp), EvSync tmp, EvRename tmp dest]"
proof -
  define w1 where "w1 = write_file tmp (Body resp) w"
  define w2 where "w2 = emit (EvSync tmp) w1"
  have f2: "files w2 = (files w)(tmp \<mapsto> Body resp)"
    and t2: "trace w2 = trace w @ [EvWrite tmp (Body resp), EvSync tmp]"
    by (simp_all add: w1_def w2_def write_file_def emit_def)
  obtain r w3 where rn: "os_Rename E tmp dest w2 = (r, w3)" by (cases "os_Rename E tmp dest w2")
  with assms have "r = None" and "w' = w3"
    by (auto simp: download_body_def Let_def w1_def w2_def split: option.splits prod.splits)
  then show ?thesis using os_Rename_cases [OF rn] f2 t2 by auto
qed

lemma download_early:
  assumes "download E url dest w = (r, w')"
    and "new_request E url \<noteq> None \<or> (\<forall>resp. http_do E w url = Inr resp \<longrightarrow> StatusCode resp \<noteq> 200)"
  shows "r \<noteq> None \<and> files w' = files w
         \<and> trace w' = trace w @ (if new_request E url = None then [EvHttpGet url] else [])
         \<and> (\<forall>resp. new_request E url = None \<longrightarrow> http_do E w url = Inr resp \<longrightarrow>
               r = Some (ErrMsg (''unexpected status '' @ Status resp)))"
proof (cases "new_request E url")
  case (Some e)
  with assms(1) have "r = Some e" and "w' = w" by (simp_all add: download_def)
  then show ?thesis using Some by simp
next
  case None
  show ?thesis
  proof (cases "http_do E w url")
    case (Inl e)
    then show ?thesis using assms(1) None by (auto simp: download_def emit_def Let_def)
  next
    case (Inr resp)
    then have "StatusCode resp \<noteq> 200" using assms(2) None by simp
    then show ?thesis using assms(1) None Inr by (auto simp: download_def emit_def Let_def)
  qed
qed

lemma os_Remove_cases:
  "trace (os_Remove E p w) = trace w @ [EvRemove p]
   \<and> (files (os_Remove E p w) = (files w)(p := None)
        \<or> remove_fault E w p \<noteq> None \<and> files (os_Remove E p w) = files w)"
  by (cases "remove_fault E w p") (simp_all add: os_Remove_def emit_def Let_def)

lemma download_late:
  assumes dl: "download E url dest w = (r, w')"
    and rq: "new_request E url = None"
    and rs: "http_do E w url = Inr resp"
    and ok: "StatusCode resp = 200"
  shows "\<exists>evs. trace w' = trace w @ EvHttpGet url # EvMkdirAll (filepath_Dir dest) # evs
           \<and> (case r of
                 Some e \<Rightarrow>
                   (evs = [] \<and> files w' = files w)
                   \<or> (\<exists>tmp. files w tmp = None \<and> evs \<in> temp_events tmp dest (Body resp)
                         \<and> (files w' = files w
                              \<or> (\<exists>v data. remove_fault E v tmp \<noteq> None
                                    \<and> files w' = (files w)(tmp \<mapsto> data))))
               | None \<Rightarrow>
                   (\<exists>tmp. files w tmp = None
                      \<and> evs = [EvCreateTemp tmp, EvWrite tmp (Body resp), EvSync tmp,
                                EvRename tmp dest, EvRemove tmp]
                      \<and> (tmp \<noteq> dest \<longrightarrow> files w' = (files w)(dest \<mapsto> Body resp))
                      \<and> (tmp = dest \<longrightarrow> files w' = files w
                            \<or> (\<exists>v. remove_fault E v tmp \<noteq> None)
                               \<and> files w' = (files w)(dest \<mapsto> Body resp))))"
proof -
  define dir where "dir = filepath_Dir dest"
  define w1 where "w1 = emit (EvHttpGet url) w"
  define w2 where "w2 = emit (EvMkdirAll dir) w1"
  have f2: "files w2 = files w" and t2: "trace w2 = trace w @ [EvHttpGet url, EvMkdirAll dir]"
    by (simp_all add: w1_def w2_def emit_def)
  show ?thesis
  proof (cases "mkdir_all E w1 dir")
    case (Some e)
    then have "r = Some (ErrWrap ''create destination directory'' e)" and "w' = w2"
      using dl rq rs ok by (simp_all add: download_def Let_def w1_def w2_def dir_def)
    then show ?thesis using f2 t2 by (simp add: dir_def)
  next
    case None
    obtain t w3 where ct: "os_CreateTemp E dir w2 = (t, w3)" by (cases "os_CreateTemp E dir w2")
    show ?thesis
    proof (cases t)
      case (Inl e)
      then have "r = Some (ErrWrap ''create temp file'' e)" and "w' = w3"
        using dl rq rs ok None ct by (simp_all add: download_def Let_def w1_def w2_def dir_def)
      moreover have "w3 = w2" using ct Inl os_CreateTemp_Inl by simp
      ultimately show ?thesis using f2 t2 by (simp add: dir_def)
    next
      case (Inr tmp)
      with ct os_CreateTemp_Inr [of E dir w2 tmp w3]
      have fresh: "files w tmp = None" and f3: "files w3 = (files w)(tmp \<mapsto> [])"
        and t3: "trace w3 = trace w @ [EvHttpGet url, EvMkdirAll dir, EvCreateTemp tmp]"
        using f2 t2 by simp_all
      obtain r4 w4 where db: "download_body E resp tmp dest w3 = (r4, w4)"
        by (cases "download_body E resp tmp dest w3")
      have res: "r = r4" "w' = os_Remove E tmp w4"
        using dl rq rs ok None ct Inr db
        by (simp_all add: download_def Let_def w1_def w2_def dir_def)
      have t': "trace w' = trace w4 @ [EvRemove tmp]"
        and f': "files w' = (files w4)(tmp := None)
                 \<or> remove_fault E w4 tmp \<noteq> None \<and> files w' = files w4"
        using res os_Remove_cases [of E tmp w4] by simp_all
      show ?thesis
      proof (cases r4)
        case (Some e)
        from download_body_Some [OF db [unfolded Some]] obtain data evs where
          f4: "files w4 = (files w3)(tmp \<mapsto> data)" and
          t4: "trace w4 = trace w3 @ evs" and
          ev: "(\<exists>n. evs = [EvWrite tmp (take n (Body resp))])
               \<or> evs = [EvWrite tmp (Body resp), EvSync tmp]
               \<or> evs = [EvWrite tmp (Body resp), EvSync tmp, EvRename tmp dest]"
          by blast
        have a: "(files w4)(tmp := None) = files w" using f4 f3 fresh by (simp add: fun_upd_idem)
        have b: "files w4 = (files w)(tmp \<mapsto> data)" using f4 f3 by simp
        have fs: "files w' = files w
                  \<or> (\<exists>v data. remove_fault E v tmp \<noteq> None \<and> files w' = (files w)(tmp \<mapsto> data))"
          using f' a b by metis
        have tr: "trace w' = trace w @ EvHttpGet url # EvMkdirAll dir # (EvCreateTemp tmp # evs @ [EvRemove tmp])"
          using t' t4 t3 by simp
        have te: "EvCreateTemp tmp # evs @ [EvRemove tmp] \<in> temp_events tmp dest (Body resp)"
          using ev unfolding temp_events_def by auto
        have "(case r of
                 Some e \<Rightarrow>
                   (EvCreateTemp tmp # evs @ [EvRemove tmp] = [] \<and> files w' = files w)
                   \<or> (\<exists>tmp'. files w tmp' = None
                         \<and> EvCreateTemp tmp # evs @ [EvRemove tmp] \<in> temp_events tmp' dest (Body resp)
                         \<and> (files w' = files w
                              \<or> (\<exists>v data. remove_fault E v tmp' \<noteq> None
                                    \<and> files w' = (files w)(tmp' \<mapsto> data))))
               | None \<Rightarrow> False)"
          using res Some fresh te fs by auto
        then show ?thesis using tr res Some unfolding dir_def
          by (intro exI [of _ "EvCreateTemp tmp # evs @ [EvRemove tmp]"]) simp
      next
        case None
        from download_body_None [OF db [unfolded None]]
        have f4: "files w4 = (if tmp = dest then (files w3)(tmp \<mapsto> Body resp)
                              else (files w3)(dest \<mapsto> Body resp, tmp := None))"
          and t4: "trace w4 = trace w3 @ [EvWrite tmp (Body resp), EvSync tmp, EvRename tmp dest]"
          by simp_all
        have d1: "tmp \<noteq> dest \<longrightarrow> files w' = (files w)(dest \<mapsto> Body resp)"
          using f' f4 f3 fresh by (auto simp: fun_eq_iff)
        have d2: "tmp = dest \<longrightarrow> files w' = files w
                    \<or> (\<exists>v. remove_fault E v tmp \<noteq> None) \<and> files w' = (files w)(dest \<mapsto> Body resp)"
        proof
          assume same: "tmp = dest"
          then have g4: "files w4 = (files w)(dest \<mapsto> Body resp)"
            using f4 f3 by simp
          then have "(files w4)(tmp := None) = files w"
            using fresh same by (simp add: fun_upd_idem)
          then show "files w' = files w
                    \<or> (\<exists>v. remove_fault E v tmp \<noteq> None) \<and> files w' = (files w)(dest \<mapsto> Body resp)"
            using f' g4 by metis
        qed
        have tr: "trace w' = trace w @ EvHttpGet url # EvMkdirAll dir #
            [EvCreateTemp tmp, EvWrite tmp (Body resp), EvSync tmp, EvRename tmp dest, EvRemove tmp]"
          using t' t4 t3 by simp
        show ?thesis using tr d1 d2 res None fresh unfolding dir_def by auto
      qed
    qed
  qed
qed

section \<open>The events of a run\<close>

lemma new_events_append: "trace w' = trace w @ evs \<Longrightarrow> new_events w w' = evs"
  by (simp add: new_events_def)

lemma download_events:
  assumes "download E url dest w = (r, w')"
  shows "\<exists>evs. trace w' = trace w @ evs
           \<and> (\<forall>ev \<in> set evs. \<not> is_patch_event ev \<and> \<not> is_print_event ev)
           \<and> List.map_filter http_url evs = (if new_request E url = None then [url] else [])
           \<and> set (List.map_filter rename_target evs) \<subseteq> {dest}"
proof (cases "new_request E url \<noteq> None \<or> (\<forall>resp. http_do E w url = Inr resp \<longrightarrow> StatusCode resp \<noteq> 200)")
  case True
  from download_early [OF assms True] show ?thesis
    by auto
next
  case False
  then obtain resp where "new_request E url = None" "http_do E w url = Inr resp" "StatusCode resp = 200"
    by auto
  from download_late [OF assms this] obtain evs where
    t: "trace w' = trace w @ EvHttpGet url # EvMkdirAll (filepath_Dir dest) # evs" and
    e: "evs = [] \<or> (\<exists>tmp. evs \<in> temp_events tmp dest (Body resp))"
    by (cases r) (auto simp: temp_events_def)
  from e have "(\<forall>ev \<in> set evs. \<not> is_patch_event ev \<and> \<not> is_print_event ev)
      \<and> List.map_filter http_url evs = [] \<and> set (List.map_filter rename_target evs) \<subseteq> {dest}"
    by (auto simp: temp_events_def)
  then show ?thesis using t \<open>new_request E url = None\<close>
    by auto
qed

lemma ensureSupportedPatchFormat_world:
  "ensureSupportedPatchFormat E p w = (r, w') \<Longrightarrow> w' = emit (EvOpen p) w"
  by (auto simp: ensureSupportedPatchFormat_def Let_def
      split: option.splits prod.splits scan_outcome.splits)

lemma applyPatch_events:
  assumes "applyPatch E root p w = (r, w')"
  shows "\<exists>evs. trace w' = trace w @ evs \<and> (\<forall>ev \<in> set evs. is_patch_event ev)"
proof -
  define a where "a = (if filepath_IsAbs p then p else filepath_Join [root, p])"
  define w1 where "w1 = emit (EvStat a) w"
  obtain r2 w2 where es: "ensureSupportedPatchFormat E a w1 = (r2, w2)"
    by (cases "ensureSupportedPatchFormat E a w1")
  have w2: "w2 = emit (EvOpen a) w1" by (rule ensureSupportedPatchFormat_world [OF es])
  obtain g fs where ga: "git_apply E w2 root a = (g, fs)" by (cases "git_apply E w2 root a")
  have "w' = w1 \<or> w' = w2 \<or> w' = (emit (EvGitApply root a) w2)\<lparr>files := fs\<rparr>"
    using assms es ga
    by (auto simp: applyPatch_def Let_def a_def [symmetric] w1_def [symmetric] split: option.splits)
  then show ?thesis
    by (auto simp: w2 w1_def emit_def)
qed

lemma patch_events_no_url:
  "\<forall>ev \<in> set evs. is_patch_event ev \<Longrightarrow>
   List.map_filter http_url evs = [] \<and> List.map_filter rename_target evs = []"
proof (induction evs)
  case Nil
  then show ?case by simp
next
  case (Cons ev evs)
  then show ?case by (cases ev) (simp_all add: List.map_filter_simps)
qed

lemma map_filter_append: "List.map_filter g (xs @ ys) = List.map_filter g xs @ List.map_filter g ys"
  by (simp add: List.map_filter_def)

lemma processFile_dry:
  "processFile E root cfg f skip True w
   = (None, emit (EvPrint (planned_line (strings_TrimLeft (Src f) ''/'')
                             (filepath_Join [root, TargetDir cfg, filepath_FromSlash (Dst f)]))) w)"
  by (simp add: processFile_def Let_def)

lemma processFile_real:
  assumes "processFile E root cfg f skip False w = (r, w')"
  shows "\<exists>r2 w2.
           download E (wptRepoRawURL @ ''/'' @ Commit cfg @ ''/'' @ strings_TrimLeft (Src f) ''/'')
             (filepath_Join [root, TargetDir cfg, filepath_FromSlash (Dst f)])
             (emit (EvPrint (planned_line (strings_TrimLeft (Src f) ''/'')
                               (filepath_Join [root, TargetDir cfg, filepath_FromSlash (Dst f)]))) w)
           = (r2, w2)
           \<and> (case r2 of
                 Some e \<Rightarrow> r = Some (ErrWrap (''download '' @ strings_TrimLeft (Src f) ''/'') e) \<and> w' = w2
               | None \<Rightarrow>
                   if skip \<or> Patch f = [] then r = None \<and> w' = w2
                   else (\<exists>r3. applyPatch E root (Patch f) w2 = (r3, w')
                           \<and> r = map_option (ErrWrap (''apply patch '' @ Patch f)) r3))"
proof -
  define src where "src = strings_TrimLeft (Src f) ''/''"
  define url where "url = wptRepoRawURL @ ''/'' @ Commit cfg @ ''/'' @ src"
  define dest where "dest = filepath_Join [root, TargetDir cfg, filepath_FromSlash (Dst f)]"
  define w1 where "w1 = emit (EvPrint (planned_line src dest)) w"
  obtain r2 w2 where dl: "download E url dest w1 = (r2, w2)"
    by (cases "download E url dest w1")
  have pf: "processFile E root cfg f skip False w =
     (case r2 of
        Some e \<Rightarrow> (Some (ErrWrap (''download '' @ src) e), w2)
      | None \<Rightarrow>
          if skip \<or> Patch f = [] then (None, w2)
          else (case applyPatch E root (Patch f) w2 of
                  (r', w3) \<Rightarrow>
                    (case r' of
                       Some e \<Rightarrow> (Some (ErrWrap (''apply patch '' @ Patch f) e), w3)
                     | None \<Rightarrow> (None, w3))))"
    unfolding processFile_def Let_def src_def [symmetric]
    unfolding url_def [symmetric] dest_def [symmetric]
    unfolding w1_def [symmetric] dl
    by simp
  have "case r2 of
          Some e \<Rightarrow> r = Some (ErrWrap (''download '' @ src) e) \<and> w' = w2
        | None \<Rightarrow>
            if skip \<or> Patch f = [] then r = None \<and> w' = w2
            else (\<exists>r3. applyPatch E root (Patch f) w2 = (r3, w')
                    \<and> r = map_option (ErrWrap (''apply patch '' @ Patch f)) r3)"
  proof (cases r2)
    case (Some e)
    then show ?thesis using assms pf by simp
  next
    case None
    show ?thesis
    proof (cases "skip \<or> Patch f = []")
      case True
      then show ?thesis using assms pf None by simp
    next
      case False
      obtain r3 w3 where ap: "applyPatch E root (Patch f) w2 = (r3, w3)"
        by (cases "applyPatch E root (Patch f) w2")
      then have "r = map_option (ErrWrap (''apply patch '' @ Patch f)) r3 \<and> w' = w3"
        using assms pf None False by (cases r3) simp_all
      then show ?thesis using None False ap by simp
    qed
  qed
  with dl show ?thesis
    unfolding src_def url_def dest_def w1_def by blast
qed


lemma processFile_events:
  assumes run: "processFile E root cfg f skip False w = (r, w')"
  shows "\<exists>dl pa. trace w' = trace w
             @ EvPrint (planned_line (strings_TrimLeft (Src f) ''/'')
                          (filepath_Join [root, TargetDir cfg, filepath_FromSlash (Dst f)]))
             # dl @ pa
           \<and> (\<forall>ev \<in> set dl. \<not> is_patch_event ev \<and> \<not> is_print_event ev)
           \<and> List.map_filter http_url dl
               = (if new_request E (wptRepoRawURL @ ''/'' @ Commit cfg @ ''/'' @ strings_TrimLeft (Src f) ''/'') = None
                  then [wptRepoRawURL @ ''/'' @ Commit cfg @ ''/'' @ strings_TrimLeft (Src f) ''/''] else [])
           \<and> set (List.map_filter rename_target dl)
               \<subseteq> {filepath_Join [root, TargetDir cfg, filepath_FromSlash (Dst f)]}
           \<and> (\<forall>ev \<in> set pa. is_patch_event ev)
           \<and> (skip \<or> Patch f = [] \<longrightarrow> pa = [])"
proof -
  define src where "src = strings_TrimLeft (Src f) ''/''"
  define url where "url = wptRepoRawURL @ ''/'' @ Commit cfg @ ''/'' @ src"
  define dest where "dest = filepath_Join [root, TargetDir cfg, filepath_FromSlash (Dst f)]"
  define w1 where "w1 = emit (EvPrint (planned_line src dest)) w"
  from processFile_real [OF run] obtain r2 w2 where
    dl: "download E url dest w1 = (r2, w2)" and
    rest: "case r2 of
             Some e \<Rightarrow> r = Some (ErrWrap (''download '' @ src) e) \<and> w' = w2
           | None \<Rightarrow>
               if skip \<or> Patch f = [] then r = None \<and> w' = w2
               else (\<exists>r3. applyPatch E root (Patch f) w2 = (r3, w')
                       \<and> r = map_option (ErrWrap (''apply patch '' @ Patch f)) r3)"
    unfolding src_def [symmetric] url_def [symmetric] dest_def [symmetric] w1_def [symmetric]
    by blast
  from download_events [OF dl] obtain evs where
    t2: "trace w2 = trace w1 @ evs" and
    e1: "\<forall>ev \<in> set evs. \<not> is_patch_event ev \<and> \<not> is_print_event ev" and
    e2: "List.map_filter http_url evs = (if new_request E url = None then [url] else [])" and
    e3: "set (List.map_filter rename_target evs) \<subseteq> {dest}"
    by blast
  have t1: "trace w1 = trace w @ [EvPrint (planned_line src dest)]"
    by (simp add: w1_def emit_def)
  have "\<exists>pa. trace w' = trace w2 @ pa \<and> (\<forall>ev \<in> set pa. is_patch_event ev)
          \<and> (skip \<or> Patch f = [] \<longrightarrow> pa = [])"
  proof (cases "r2 = None \<and> \<not> (skip \<or> Patch f = [])")
    case True
    then obtain r3 where "applyPatch E root (Patch f) w2 = (r3, w')"
      using rest by auto
    from applyPatch_events [OF this] show ?thesis using True by auto
  next
    case False
    then have "w' = w2" using rest by (cases r2) (auto split: if_splits)
    then show ?thesis by simp
  qed
  then obtain pa where
    t3: "trace w' = trace w2 @ pa" and p1: "\<forall>ev \<in> set pa. is_patch_event ev"
    and p2: "skip \<or> Patch f = [] \<longrightarrow> pa = []"
    by blast
  have t: "trace w' = trace w @ EvPrint (planned_line src dest) # evs @ pa"
    using t1 t2 t3 by simp
  show ?thesis
    unfolding src_def [symmetric] url_def [symmetric] dest_def [symmetric]
    using t e1 e2 e3 p1 p2
    by (intro exI [of _ evs] exI [of _ pa] conjI)
qed

section \<open>Facts about \<open>processFile\<close> and \<open>applyPatch\<close>\<close>


lemma download_success:
  assumes dl: "download E url dest w = (None, w')"
  shows "\<exists>resp tmp. new_request E url = None \<and> http_do E w url = Inr resp \<and> StatusCode resp = 200
           \<and> files w tmp = None
           \<and> trace w' = trace w @ [EvHttpGet url, EvMkdirAll (filepath_Dir dest), EvCreateTemp tmp,
                                     EvWrite tmp (Body resp), EvSync tmp, EvRename tmp dest, EvRemove tmp]
           \<and> (tmp \<noteq> dest \<longrightarrow> files w' = (files w)(dest \<mapsto> Body resp))"
proof (cases "new_request E url \<noteq> None \<or> (\<forall>resp. http_do E w url = Inr resp \<longrightarrow> StatusCode resp \<noteq> 200)")
  case True
  from download_early [OF dl True] show ?thesis by simp
next
  case False
  then obtain resp where f: "new_request E url = None" "http_do E w url = Inr resp" "StatusCode resp = 200"
    by auto
  from download_late [OF dl f] f show ?thesis by auto
qed










lemma applyPatch_cases:
  "applyPatch E root p w =
     (case stat_file E w (patch_path root p) of
        Some e \<Rightarrow> (Some (ErrWrap ''stat patch'' e), emit (EvStat (patch_path root p)) w)
      | None \<Rightarrow>
          (case fst (ensureSupportedPatchFormat E (patch_path root p) (emit (EvStat (patch_path root p)) w)) of
             Some e \<Rightarrow> (Some e, emit (EvOpen (patch_path root p)) (emit (EvStat (patch_path root p)) w))
           | None \<Rightarrow>
               (map_option (ErrWrap ''git apply failed'')
                  (fst (git_apply E (emit (EvOpen (patch_path root p)) (emit (EvStat (patch_path root p)) w))
                          root (patch_path root p))),
                (emit (EvGitApply root (patch_path root p))
                   (emit (EvOpen (patch_path root p)) (emit (EvStat (patch_path root p)) w)))
                \<lparr>files := snd (git_apply E (emit (EvOpen (patch_path root p)) (emit (EvStat (patch_path root p)) w))
                                   root (patch_path root p))\<rparr>)))"
proof -
  define a where "a = patch_path root p"
  define w1 where "w1 = emit (EvStat a) w"
  obtain r2 w2 where es: "ensureSupportedPatchFormat E a w1 = (r2, w2)"
    by (rule prod.exhaust)
  have w2: "w2 = emit (EvOpen a) w1" by (rule ensureSupportedPatchFormat_world [OF es])
  obtain g fs where ga: "git_apply E w2 root a = (g, fs)" by (rule prod.exhaust)
  have ap: "applyPatch E root p w =
     (case stat_file E w a of
        Some e \<Rightarrow> (Some (ErrWrap ''stat patch'' e), w1)
      | None \<Rightarrow>
          (case r2 of
             Some e \<Rightarrow> (Some e, w2)
           | None \<Rightarrow>
               (case g of
                  Some e \<Rightarrow> (Some (ErrWrap ''git apply failed'' e), (emit (EvGitApply root a) w2)\<lparr>files := fs\<rparr>)
                | None \<Rightarrow> (None, (emit (EvGitApply root a) w2)\<lparr>files := fs\<rparr>))))"
    unfolding applyPatch_def Let_def patch_path_def [symmetric] a_def [symmetric]
    unfolding w1_def [symmetric] es
    by (cases "stat_file E w a"; cases r2; cases g) (simp_all add: ga)
  show ?thesis
    unfolding a_def [symmetric] w1_def [symmetric] es
    unfolding ap w2 [symmetric] ga
    by (cases "stat_file E w a"; cases r2; cases g) simp_all
qed








section \<open>The format check\<close>

lemma sentinel_nonempty: "strings_HasPrefix s ''*** Begin Patch'' \<Longrightarrow> s \<noteq> []"
  by (cases s) (simp_all add: strings_HasPrefix_def)

lemma scan_patch_sentinel:
  assumes "\<forall>(l, t') \<in> set blanks. strings_TrimSpace (dropCR l) = []"
    and "strings_HasPrefix (strings_TrimSpace (dropCR raw)) ''*** Begin Patch''"
  shows "scan_patch (blanks @ (raw, t) # rest) rerr =
           (if \<exists>(l, t') \<in> set (blanks @ [(raw, t)]). bufio_MaxScanTokenSize \<le> length l
            then ScanEnded (Some ErrTooLong) else FoundSentinel)"
  using assms
proof (induction blanks)
  case Nil
  then show ?case using sentinel_nonempty [of "strings_TrimSpace (dropCR raw)"]
    by (simp add: Let_def)
next
  case (Cons b blanks)
  obtain l t' where b: "b = (l, t')" by (rule prod.exhaust)
  from Cons.prems(1) b have blank: "strings_TrimSpace (dropCR l) = []" by simp
  from Cons.prems(1) have rest: "\<forall>(l, t') \<in> set blanks. strings_TrimSpace (dropCR l) = []" by simp
  show ?case
  proof (cases "bufio_MaxScanTokenSize \<le> length l")
    case True
    then show ?thesis by (simp add: b)
  next
    case False
    then have "scan_patch ((b # blanks) @ (raw, t) # rest) rerr = scan_patch (blanks @ (raw, t) # rest) rerr"
      using blank by (simp add: b Let_def)
    then show ?thesis using Cons.IH [OF rest Cons.prems(2)] False by (simp add: b)
  qed
qed

lemma scan_lines_from_no_nl:
  "CHR 0x0A \<notin> set l \<Longrightarrow> l \<noteq> [] \<Longrightarrow> scan_lines_from cur l = [(cur @ l, False)]"
proof (induction l arbitrary: cur)
  case Nil
  then show ?case by simp
next
  case (Cons c l)
  show ?case
  proof (cases l)
    case Nil
    then show ?thesis using Cons.prems by auto
  next
    case (Cons a l')
    then have "scan_lines_from (cur @ [c]) l = [((cur @ [c]) @ l, False)]"
      using Cons.IH [of "cur @ [c]"] Cons.prems by auto
    then show ?thesis using Cons.prems by auto
  qed
qed

lemma trim_right_rev_x: "trim_right_rev (CHR ''x'' # s) = CHR ''x'' # s"
proof (cases s)
  case Nil
  then show ?thesis by (simp add: is_space1_def)
next
  case (Cons b s')
  then show ?thesis
    by (cases s') (simp_all add: is_space1_def is_space2_def is_space3_def)
qed

lemma long_patch_facts:
  "scanLines long_patch = [(long_patch, False)]"
  "bufio_MaxScanTokenSize \<le> length long_patch"
  "strings_HasPrefix (strings_TrimSpace (dropCR long_patch)) ''*** Begin Patch''"
proof -
  obtain m where m: "bufio_MaxScanTokenSize = Suc m"
    by (cases bufio_MaxScanTokenSize) (simp_all add: bufio_MaxScanTokenSize_def)
  have "CHR 0x0A \<notin> set long_patch" "long_patch \<noteq> []"
    by (simp_all add: long_patch_def)
  then show "scanLines long_patch = [(long_patch, False)]"
    using scan_lines_from_no_nl [of long_patch "[]"] by (simp add: scanLines_def)
  show "bufio_MaxScanTokenSize \<le> length long_patch"
    by (simp add: long_patch_def)
  have rs: "replicate (Suc m) CHR ''x'' = replicate m CHR ''x'' @ ''x''"
    by (simp add: replicate_append_same)
  have lp: "long_patch = (''*** Begin Patch'' @ replicate m CHR ''x'') @ [CHR ''x'']"
    unfolding long_patch_def m rs by simp
  have l: "last long_patch = CHR ''x''"
    unfolding lp by (rule last_snoc)
  then have d: "dropCR long_patch = long_patch"
    by (simp add: dropCR_def)
  have tl: "trim_left_space long_patch = long_patch"
    by (simp add: long_patch_def is_space1_def is_space2_def is_space3_def)
  have "rev long_patch = CHR ''x'' # rev (''*** Begin Patch'' @ replicate m CHR ''x'')"
    unfolding lp by (subst rev_append) simp
  then have "trim_right_rev (rev long_patch) = rev long_patch"
    by (simp only: trim_right_rev_x)
  then have "strings_TrimSpace long_patch = long_patch"
    by (simp add: strings_TrimSpace_def tl)
  then show "strings_HasPrefix (strings_TrimSpace (dropCR long_patch)) ''*** Begin Patch''"
    by (simp add: d) (simp add: long_patch_def strings_HasPrefix_def)
qed


lemma ensureSupportedPatchFormat_fst:
  assumes "open_fault E w a = None" and "read_file E w a = (content, rerr)"
  shows "fst (ensureSupportedPatchFormat E a w) =
           (case scan_patch (scanLines content) rerr of
              FoundSentinel \<Rightarrow> Some (wrong_format a)
            | ScanEnded (Some e) \<Rightarrow> Some (ErrWrap (''read patch '' @ a) e)
            | ScanEnded None \<Rightarrow> None)"
  unfolding ensureSupportedPatchFormat_def Let_def assms
  by (simp split: scan_outcome.split option.split)

section \<open>The request and the written bytes\<close>










section \<open>The destination path\<close>

lemma filepath_Join_leading_slash2:
  assumes "a \<noteq> [] \<or> b \<noteq> []"
  shows "filepath_Join [a, b, CHR ''/'' # c] = filepath_Join [a, b, c]"
proof (cases "a = []")
  case False
  then show ?thesis by (rule filepath_Join_leading_slash)
next
  case True
  then have "b \<noteq> []" using assms by simp
  then show ?thesis using True filepath_Clean_leading [of b c] by simp
qed

lemma filepath_Join_leading_slashes:
  assumes "a \<noteq> [] \<or> b \<noteq> []"
  shows "filepath_Join [a, b, replicate n CHR ''/'' @ c] = filepath_Join [a, b, c]"
proof (induction n)
  case 0
  then show ?case by simp
next
  case (Suc n)
  have "filepath_Join [a, b, replicate (Suc n) CHR ''/'' @ c]
        = filepath_Join [a, b, CHR ''/'' # (replicate n CHR ''/'' @ c)]"
    by simp
  also have "\<dots> = filepath_Join [a, b, replicate n CHR ''/'' @ c]"
    by (rule filepath_Join_leading_slash2 [OF assms])
  finally show ?case using Suc by simp
qed

lemma foldl_clean_no_dotdot:
  "''..'' \<notin> set es \<Longrightarrow>
   foldl (clean_step rooted) out es = out @ filter (\<lambda>e. e \<noteq> [] \<and> e \<noteq> ''.'') es"
proof (induction es arbitrary: out)
  case Nil
  then show ?case by simp
next
  case (Cons e es)
  from Cons.prems have e: "e \<noteq> ''..''" and es: "''..'' \<notin> set es" by auto
  have step: "clean_step rooted out e = (if e \<noteq> [] \<and> e \<noteq> ''.'' then out @ [e] else out)"
    using e by (simp add: clean_step_def)
  show ?case
  proof (cases "e \<noteq> [] \<and> e \<noteq> ''.''")
    case True
    then have "clean_step rooted out e = out @ [e]" using step by simp
    then show ?thesis using Cons.IH [OF es, of "out @ [e]"] True by simp
  next
    case False
    then have "clean_step rooted out e = out" using step by simp
    then show ?thesis using Cons.IH [OF es, of out] False by auto
  qed
qed

lemma strings_Join_append:
  "xs \<noteq> [] \<Longrightarrow> ys \<noteq> [] \<Longrightarrow>
   strings_Join (xs @ ys) sep = strings_Join xs sep @ sep @ strings_Join ys sep"
proof (induction xs sep rule: strings_Join.induct)
  case (1 sep)
  then show ?case by simp
next
  case (2 e sep)
  then show ?case by (cases ys) simp_all
next
  case (3 e v va sep)
  then show ?case by simp
qed

lemma filepath_Join_under:
  assumes ab: "filepath_IsAbs root" and nd: "''..'' \<notin> set (split_sep d)"
  shows "resolved_under (filepath_Join [root, t]) (filepath_Join [root, t, d])"
proof -
  from ab have rne: "root \<noteq> []" and hr: "hd root = CHR ''/''"
    by (cases root; simp add: filepath_IsAbs_def strings_HasPrefix_def)+
  define p where "p = root @ CHR ''/'' # t"
  have pne: "p \<noteq> []" and hp: "hd p = CHR ''/''" using rne hr by (simp_all add: p_def)
  define ob where "ob = foldl (clean_step True) [] (split_sep p)"
  define es where "es = filter (\<lambda>e. e \<noteq> [] \<and> e \<noteq> ''.'') (split_sep d)"
  have base: "filepath_Join [root, t] = CHR ''/'' # strings_Join ob ''/''"
    using rne pne hp by (simp add: p_def [symmetric] filepath_Clean_def Let_def clean_render_def ob_def)
  have "filepath_Join [root, t, d] = filepath_Clean (p @ CHR ''/'' # d)"
    using rne by (simp add: p_def)
  also have "\<dots> = clean_render True (foldl (clean_step True) ob (split_sep d))"
    using pne hp by (simp add: filepath_Clean_def Let_def split_sep_append ob_def)
  also have "\<dots> = CHR ''/'' # strings_Join (ob @ es) ''/''"
    unfolding foldl_clean_no_dotdot [OF nd] es_def by (simp add: clean_render_def)
  finally have dest: "filepath_Join [root, t, d] = CHR ''/'' # strings_Join (ob @ es) ''/''" .
  show ?thesis
  proof (cases "es = []")
    case True
    then show ?thesis unfolding dest base by (simp add: resolved_under_def)
  next
    case False
    show ?thesis
    proof (cases "ob = []")
      case True
      then show ?thesis unfolding dest base by (simp add: resolved_under_def strings_HasPrefix_def)
    next
      case obne: False
      have co: "clean_out True ob" unfolding ob_def by (rule clean_out_split)
      from clean_out_hd [OF co obne] have "strings_Join ob ''/'' \<noteq> []" by simp
      then have nr: "CHR ''/'' # strings_Join ob ''/'' \<noteq> ''/''" by simp
      show ?thesis
        unfolding dest base strings_Join_append [OF obne False] resolved_under_def
        using nr by (simp add: strings_HasPrefix_def)
    qed
  qed
qed

lemma processFile_renames:
  "set (List.map_filter rename_target (new_events w (snd (processFile E root cfg f skip dry w))))
   \<subseteq> {file_dest root cfg f}"
proof (cases dry)
  case True
  then show ?thesis
    by (simp add: processFile_dry new_events_def emit_def List.map_filter_simps)
next
  case False
  obtain r w' where run: "processFile E root cfg f skip False w = (r, w')"
    by (rule prod.exhaust)
  from processFile_events [OF run] obtain dl pa where
    tr: "trace w' = trace w @ EvPrint (planned_line (strings_TrimLeft (Src f) ''/'')
                          (filepath_Join [root, TargetDir cfg, filepath_FromSlash (Dst f)])) # dl @ pa" and
    rn: "set (List.map_filter rename_target dl) \<subseteq> {file_dest root cfg f}" and
    pa: "\<forall>ev \<in> set pa. is_patch_event ev"
    unfolding file_dest_def by auto
  from patch_events_no_url [OF pa] have "List.map_filter rename_target pa = []" by simp
  then show ?thesis
    using tr rn False by (simp add: run new_events_def map_filter_append List.map_filter_simps)
qed

lemma processFile_success_rename:
  assumes "fst (processFile E root cfg f skip False w) = None"
  shows "\<exists>tmp. EvRename tmp (file_dest root cfg f)
                 \<in> set (new_events w (snd (processFile E root cfg f skip False w)))"
proof -
  define w1 where "w1 = emit (EvPrint (planned_line (file_src f) (file_dest root cfg f))) w"
  obtain r w' where run: "processFile E root cfg f skip False w = (r, w')" by (rule prod.exhaust)
  from assms run have r: "r = None" by simp
  from processFile_real [OF run] obtain r2 w2 where
    dl: "download E (file_url cfg f) (file_dest root cfg f) w1 = (r2, w2)" and
    rest: "case r2 of
             Some e \<Rightarrow> r = Some (ErrWrap (''download '' @ file_src f) e) \<and> w' = w2
           | None \<Rightarrow>
               if skip \<or> Patch f = [] then r = None \<and> w' = w2
               else (\<exists>r3. applyPatch E root (Patch f) w2 = (r3, w')
                       \<and> r = map_option (ErrWrap (''apply patch '' @ Patch f)) r3)"
    unfolding w1_def file_url_def file_dest_def file_src_def by blast
  from rest r have r2: "r2 = None" by (cases r2) simp_all
  have t1: "trace w1 = trace w @ [EvPrint (planned_line (file_src f) (file_dest root cfg f))]"
    by (simp add: w1_def emit_def)
  from download_success [OF dl [unfolded r2]]
  obtain body tmp where
    t2: "trace w2 = trace w1 @ [EvHttpGet (file_url cfg f), EvMkdirAll (filepath_Dir (file_dest root cfg f)),
                                 EvCreateTemp tmp, EvWrite tmp body, EvSync tmp,
                                 EvRename tmp (file_dest root cfg f), EvRemove tmp]"
    by blast
  have "\<exists>pa. trace w' = trace w2 @ pa"
  proof (cases "skip \<or> Patch f = []")
    case True
    then have "w' = w2" using rest r2 by simp
    then show ?thesis by simp
  next
    case False
    then obtain r3 where "applyPatch E root (Patch f) w2 = (r3, w')"
      using rest r2 by auto
    from applyPatch_events [OF this] show ?thesis by auto
  qed
  then obtain pa where t3: "trace w' = trace w2 @ pa" by blast
  have "EvRename tmp (file_dest root cfg f) \<in> set (new_events w w')"
    using t1 t2 t3 by (simp add: new_events_def)
  then show ?thesis unfolding run by auto
qed

section \<open>The run up to an entry\<close>

lemma sync_files_append:
  "sync_files E root cfg skip dry (xs @ ys) w =
     (case sync_files E root cfg skip dry xs w of
        (r, w') \<Rightarrow>
          (case r of
             Some e \<Rightarrow> (Some e, w')
           | None \<Rightarrow> sync_files E root cfg skip dry ys w'))"
  by (induction xs arbitrary: w) (simp_all split: prod.splits option.splits)


section \<open>Validation\<close>

text \<open>
  C2, as stated: \<^verbatim>\<open>validate\<close> succeeds exactly when \<^verbatim>\<open>commit\<close> and \<^verbatim>\<open>target_dir\<close> are
  both non-empty, whatever the file list. The older copy's \<^verbatim>\<open>validate\<close> refuses a
  configuration with both fields set and an empty file list.
\<close>

theorem sync_wpt_validate_empty_files_counterexample:
  "\<not> (sync_wpt_validate \<lparr>Commit = ''b5e12f33'', TargetDir = ''tests/wpt'', Files = []\<rparr> = None
      \<longleftrightarrow> Commit \<lparr>Commit = ''b5e12f33'', TargetDir = ''tests/wpt'', Files = []\<rparr> \<noteq> []
        \<and> TargetDir \<lparr>Commit = ''b5e12f33'', TargetDir = ''tests/wpt'', Files = []\<rparr> \<noteq> [])"
  by (simp add: sync_wpt_validate_def)

text \<open>
  C2, amended: \<^verbatim>\<open>validate\<close> of \<^verbatim>\<open>main.go\<close> succeeds exactly when \<^verbatim>\<open>commit\<close> and
  \<^verbatim>\<open>target_dir\<close> are both non-empty, and replacing the file list never changes
  its result; \<^verbatim>\<open>validate\<close> of the older copy succeeds exactly when, in addition,
  the file list is non-empty.
\<close>

theorem validate_iff:
  "(validate c = None \<longleftrightarrow> Commit c \<noteq> [] \<and> TargetDir c \<noteq> [])
   \<and> validate (c\<lparr>Files := fs\<rparr>) = validate c
   \<and> (sync_wpt_validate c = None \<longleftrightarrow> Commit c \<noteq> [] \<and> TargetDir c \<noteq> [] \<and> Files c \<noteq> [])"
  by (simp add: validate_def sync_wpt_validate_def)

theorem validate_iff_witness:
  "validate \<lparr>Commit = ''b5e12f33'', TargetDir = ''tests/wpt'', Files = []\<rparr> = None
   \<and> sync_wpt_validate \<lparr>Commit = ''b5e12f33'', TargetDir = ''tests/wpt'', Files = []\<rparr> \<noteq> None"
  using validate_iff [of "\<lparr>Commit = ''b5e12f33'', TargetDir = ''tests/wpt'', Files = []\<rparr>" "[]"]
  by simp

section \<open>A failed download leaves the destination alone\<close>




section \<open>Order of processing and the first failure\<close>

lemma processFile_error_wrapped:
  assumes "processFile E root cfg f skip dry w = (Some e, w')"
  shows "\<exists>cause. e = ErrWrap (''download '' @ strings_TrimLeft (Src f) ''/'') cause
               \<or> e = ErrWrap (''apply patch '' @ Patch f) cause"
proof (cases dry)
  case True
  then show ?thesis using assms by (simp add: processFile_dry)
next
  case False
  with assms have run: "processFile E root cfg f skip False w = (Some e, w')" by simp
  from processFile_real [OF run] obtain r2 w2 where
    rest: "case r2 of
             Some e2 \<Rightarrow> Some e = Some (ErrWrap (''download '' @ strings_TrimLeft (Src f) ''/'') e2) \<and> w' = w2
           | None \<Rightarrow>
               if skip \<or> Patch f = [] then Some e = None \<and> w' = w2
               else (\<exists>r3. applyPatch E root (Patch f) w2 = (r3, w')
                       \<and> Some e = map_option (ErrWrap (''apply patch '' @ Patch f)) r3)"
    by blast
  show ?thesis
  proof (cases r2)
    case (Some e2)
    then show ?thesis using rest by simp
  next
    case None
    then obtain r3 where "Some e = map_option (ErrWrap (''apply patch '' @ Patch f)) r3"
      using rest by (auto split: if_splits)
    then show ?thesis by (cases r3) auto
  qed
qed

text \<open>
  C3: the loop treats the entries in the order of the list: a run over a list
  \<open>xs @ ys\<close> is the run over \<open>xs\<close> followed, when that succeeds, by the run over \<open>ys\<close>
  from the world \<open>xs\<close> left. When the entries before \<open>f\<close> succeed (or are disabled)
  and \<open>f\<close> fails, \<^verbatim>\<open>runSync\<close> (and \<^verbatim>\<open>run\<close> of the older copy) returns the error of
  \<open>f\<close>, which names the trimmed \<^verbatim>\<open>src\<close> of \<open>f\<close> or its patch, in the world in which the
  processing of \<open>f\<close> ended: nothing is done for a later entry.
\<close>

theorem first_failure_aborts_run:
  assumes valid: "validate cfg = None"
    and files: "Files cfg = pre @ f # post"
    and pre: "sync_files E root cfg skip dry pre (emit (EvPrint (syncing_line cfg)) w) = (None, w1)"
    and en: "isEnabled f"
    and fail: "processFile E root cfg f skip dry w1 = (Some e, w2)"
  shows "runSync E (Inr root) (Inr cfg) skip dry w = (Some e, w2)
         \<and> sync_wpt_run E (Inr root) (Inr cfg) skip dry w = (Some e, w2)
         \<and> (\<exists>cause. e = ErrWrap (''download '' @ strings_TrimLeft (Src f) ''/'') cause
                    \<or> e = ErrWrap (''apply patch '' @ Patch f) cause)
         \<and> (\<forall>xs ys v. sync_files E root cfg skip dry (xs @ ys) v =
               (case sync_files E root cfg skip dry xs v of
                  (r, v') \<Rightarrow>
                    (case r of
                       Some e' \<Rightarrow> (Some e', v')
                     | None \<Rightarrow> sync_files E root cfg skip dry ys v')))"
proof -
  have "sync_files E root cfg skip dry (f # post) w1 = (Some e, w2)"
    using en fail by simp
  then have loop: "sync_files E root cfg skip dry (Files cfg) (emit (EvPrint (syncing_line cfg)) w)
                   = (Some e, w2)"
    using pre by (simp add: files sync_files_append)
  have valid': "sync_wpt_validate cfg = None"
    using valid files by (simp add: validate_def sync_wpt_validate_def split: if_splits)
  have "runSync E (Inr root) (Inr cfg) skip dry w = (Some e, w2)"
    using valid loop files by (simp add: runSync_def)
  moreover have "sync_wpt_run E (Inr root) (Inr cfg) skip dry w = (Some e, w2)"
    using valid' loop by (simp add: sync_wpt_run_def)
  ultimately show ?thesis
    using processFile_error_wrapped [OF fail] sync_files_append by blast
qed

theorem first_failure_aborts_run_witness:
  "fst (runSync (sample_env sample_http) (Inr ''/r'') (Inr sample_config) False False sample_world)
     = Some (ErrWrap ''download gone.js'' (ErrMsg ''unexpected status 404 Not Found''))
   \<and> List.map_filter http_url
        (trace (snd (runSync (sample_env sample_http) (Inr ''/r'') (Inr sample_config) False False sample_world)))
     = [wptRepoRawURL @ ''/deadbeef/a/b.js'', wptRepoRawURL @ ''/deadbeef/gone.js'']"
proof -
  define E where "E = sample_env sample_http"
  define w0 where "w0 = emit (EvPrint (syncing_line sample_config)) sample_world"
  define w1 where "w1 = snd (sync_files E ''/r'' sample_config False False [entry_off, entry_a] w0)"
  define w2 where "w2 = snd (processFile E ''/r'' sample_config entry_gone False False w1)"
  have valid: "validate sample_config = None"
    by (simp add: validate_def sample_config_def)
  have files: "Files sample_config = [entry_off, entry_a] @ entry_gone # [entry_c]"
    by (simp add: sample_config_def)
  have w1: "w1 = \<lparr>files = [''/r/out/a/b.js'' \<mapsto> ''console.log(1)'', ''/r/fix.patch'' \<mapsto> ''diff --git a/x b/x''],
       trace = trace w0 @
        [EvPrint (skipping_line entry_off),
         EvPrint (planned_line ''a/b.js'' ''/r/out/a/b.js''),
         EvHttpGet (wptRepoRawURL @ ''/deadbeef/a/b.js''),
         EvMkdirAll ''/r/out/a'', EvCreateTemp ''/r/out/a/.wpt-download-1234'',
         EvWrite ''/r/out/a/.wpt-download-1234'' ''console.log(1)'',
         EvSync ''/r/out/a/.wpt-download-1234'',
         EvRename ''/r/out/a/.wpt-download-1234'' ''/r/out/a/b.js'',
         EvRemove ''/r/out/a/.wpt-download-1234'', EvStat ''/r/fix.patch'',
         EvOpen ''/r/fix.patch'', EvGitApply ''/r'' ''/r/fix.patch'']\<rparr>"
    unfolding w1_def w0_def E_def
    by (simp add: sample_defs run_defs patch_defs Let_def fun_eq_iff)
  have pre: "sync_files E ''/r'' sample_config False False [entry_off, entry_a] w0 = (None, w1)"
    unfolding w1_def w0_def E_def
    by (simp add: sample_defs run_defs patch_defs Let_def prod_eq_iff)
  have en: "isEnabled entry_gone"
    by (simp add: isEnabled_def entry_gone_def)
  have fail: "processFile E ''/r'' sample_config entry_gone False False w1
      = (Some (ErrWrap ''download gone.js'' (ErrMsg ''unexpected status 404 Not Found'')),
         emit (EvHttpGet (wptRepoRawURL @ ''/deadbeef/gone.js''))
           (emit (EvPrint (planned_line ''gone.js'' ''/r/out/gone.js'')) w1))"
    unfolding E_def
    by (simp add: sample_defs run_defs Let_def)
  from first_failure_aborts_run [OF valid files pre [unfolded w0_def] en fail]
  have "runSync E (Inr ''/r'') (Inr sample_config) False False sample_world
      = (Some (ErrWrap ''download gone.js'' (ErrMsg ''unexpected status 404 Not Found'')),
         emit (EvHttpGet (wptRepoRawURL @ ''/deadbeef/gone.js''))
           (emit (EvPrint (planned_line ''gone.js'' ''/r/out/gone.js'')) w1))"
    by simp
  then show ?thesis
    unfolding E_def [symmetric]
    by (simp add: w1 w0_def emit_def sample_world_def List.map_filter_def)
qed

section \<open>Disabled entries\<close>

text \<open>
  C4: an entry is enabled exactly when its \<^verbatim>\<open>enabled\<close> field is absent or true. For
  an entry whose field is false the loop prints the skipping line and goes on
  with the rest of the list from a world in which nothing else has happened: a
  list of that one entry ends without an error, with every file as it was and
  the one print as its only event.
\<close>

theorem disabled_entry_skipped:
  "(isEnabled f \<longleftrightarrow> Enabled f = None \<or> Enabled f = Some True)
   \<and> (Enabled f = Some False \<longrightarrow>
        sync_files E root cfg skip dry (f # rest) w
          = sync_files E root cfg skip dry rest (emit (EvPrint (skipping_line f)) w)
        \<and> sync_files E root cfg skip dry [f] w = (None, emit (EvPrint (skipping_line f)) w)
        \<and> files (emit (EvPrint (skipping_line f)) w) = files w
        \<and> new_events w (emit (EvPrint (skipping_line f)) w) = [EvPrint (skipping_line f)])"
  by (cases "Enabled f") (auto simp: isEnabled_def emit_def new_events_def)

theorem disabled_entry_skipped_witness:
  "\<not> isEnabled entry_off
   \<and> sync_files (sample_env sample_http) ''/r'' sample_config False False [entry_off] sample_world
       = (None, emit (EvPrint (skipping_line entry_off)) sample_world)
   \<and> skipping_line entry_off = '' - skipping off.js (disabled)'' @ [CHR 0x0A]"
  using disabled_entry_skipped [of entry_off "sample_env sample_http" "''/r''" sample_config False False "[]" sample_world]
  by (simp add: entry_off_def skipping_line_def)

section \<open>Dry run\<close>

text \<open>
  C5: with the dry-run option \<open>processFile\<close> returns no error, leaves every file as
  it was and adds one event, the print of the planned \<^verbatim>\<open>src -> dest\<close> line (so no
  request, no write and no patch); without the option the first event it adds
  is the print of that same line.
\<close>

theorem dry_run_only_reports:
  "processFile E root cfg f skip True w
     = (None, emit (EvPrint (planned_line (strings_TrimLeft (Src f) ''/'')
                               (filepath_Join [root, TargetDir cfg, filepath_FromSlash (Dst f)]))) w)
   \<and> files (snd (processFile E root cfg f skip True w)) = files w
   \<and> new_events w (snd (processFile E root cfg f skip True w))
       = [EvPrint (planned_line (strings_TrimLeft (Src f) ''/'')
                     (filepath_Join [root, TargetDir cfg, filepath_FromSlash (Dst f)]))]
   \<and> take 1 (new_events w (snd (processFile E root cfg f skip False w)))
       = [EvPrint (planned_line (strings_TrimLeft (Src f) ''/'')
                     (filepath_Join [root, TargetDir cfg, filepath_FromSlash (Dst f)]))]"
proof -
  obtain r w' where run: "processFile E root cfg f skip False w = (r, w')"
    by (cases "processFile E root cfg f skip False w")
  from processFile_events [OF run] obtain dl pa where
    "trace w' = trace w
       @ EvPrint (planned_line (strings_TrimLeft (Src f) ''/'')
                    (filepath_Join [root, TargetDir cfg, filepath_FromSlash (Dst f)]))
       # dl @ pa"
    by blast
  then have "take 1 (new_events w w')
      = [EvPrint (planned_line (strings_TrimLeft (Src f) ''/'')
                    (filepath_Join [root, TargetDir cfg, filepath_FromSlash (Dst f)]))]"
    by (simp add: new_events_def)
  then show ?thesis
    by (simp add: run processFile_dry emit_def new_events_def)
qed

theorem dry_run_only_reports_witness:
  "processFile (sample_env sample_http) ''/r'' sample_config entry_a False True sample_world
     = (None, emit (EvPrint '' - a/b.js -> /r/out/a/b.js\<newline>'') sample_world)
   \<and> take 1 (new_events sample_world
         (snd (processFile (sample_env sample_http) ''/r'' sample_config entry_a False False sample_world)))
       = [EvPrint '' - a/b.js -> /r/out/a/b.js\<newline>'']"
proof -
  have l: "planned_line (strings_TrimLeft (Src entry_a) ''/'')
            (filepath_Join [''/r'', TargetDir sample_config, filepath_FromSlash (Dst entry_a)])
           = '' - a/b.js -> /r/out/a/b.js\<newline>''"
    by (simp add: sample_defs run_defs)
  from dry_run_only_reports [of "sample_env sample_http" "''/r''" sample_config entry_a False sample_world]
  show ?thesis
    unfolding l by simp
qed

section \<open>Skipping patches\<close>



section \<open>Patches in the wrong format\<close>

text \<open>
  C7, at a patch file that exists and whose first non-blank line begins with the
  sentinel: when that line is 64 KiB long or more, the scanner stops with
  \<^verbatim>\<open>bufio.ErrTooLong\<close> before the loop sees any line, and \<open>applyPatch\<close> returns
  the read error, not the wrong-format error.
\<close>

theorem long_sentinel_line_counterexample:
  "stat_file (sample_env sample_http) long_patch_world ''/r/fix.patch'' = None
   \<and> read_file (sample_env sample_http) (emit (EvStat ''/r/fix.patch'') long_patch_world) ''/r/fix.patch''
       = (long_patch, None)
   \<and> scanLines long_patch = [(long_patch, False)]
   \<and> strings_HasPrefix (strings_TrimSpace (dropCR long_patch)) ''*** Begin Patch''
   \<and> fst (applyPatch (sample_env sample_http) ''/r'' ''fix.patch'' long_patch_world)
       = Some (ErrWrap ''read patch /r/fix.patch'' ErrTooLong)
   \<and> fst (applyPatch (sample_env sample_http) ''/r'' ''fix.patch'' long_patch_world)
       \<noteq> Some (wrong_format ''/r/fix.patch'')"
proof -
  let ?E = "sample_env sample_http"
  have pp: "patch_path ''/r'' ''fix.patch'' = ''/r/fix.patch''"
    by (simp add: run_defs)
  have st: "stat_file ?E long_patch_world ''/r/fix.patch'' = None"
    by (simp add: sample_env_def long_patch_world_def)
  have op: "open_fault ?E (emit (EvStat ''/r/fix.patch'') long_patch_world) ''/r/fix.patch'' = None"
    by (simp add: sample_env_def)
  have rd: "read_file ?E (emit (EvStat ''/r/fix.patch'') long_patch_world) ''/r/fix.patch'' = (long_patch, None)"
    by (simp add: sample_env_def long_patch_world_def emit_def)
  have sp: "scan_patch (scanLines long_patch) None = ScanEnded (Some ErrTooLong)"
    unfolding long_patch_facts(1) using long_patch_facts(2) by simp
  have es: "fst (ensureSupportedPatchFormat ?E ''/r/fix.patch'' (emit (EvStat ''/r/fix.patch'') long_patch_world))
              = Some (ErrWrap ''read patch /r/fix.patch'' ErrTooLong)"
    unfolding ensureSupportedPatchFormat_fst [OF op rd] sp by simp
  have ap: "fst (applyPatch ?E ''/r'' ''fix.patch'' long_patch_world)
              = Some (ErrWrap ''read patch /r/fix.patch'' ErrTooLong)"
    unfolding applyPatch_cases pp st es by simp
  have ne: "Some (ErrWrap ''read patch /r/fix.patch'' ErrTooLong) \<noteq> Some (wrong_format ''/r/fix.patch'')"
    by (simp add: wrong_format_def)
  show ?thesis
    using st rd long_patch_facts(1) long_patch_facts(3) ap ne
    unfolding ap by (intro conjI)
qed

text \<open>
  C7: when \<^verbatim>\<open>os.Stat\<close> fails on the patch path, \<open>applyPatch\<close> returns its error
  wrapped as \<^verbatim>\<open>stat patch\<close>, after the stat alone. When the file is found and
  opened and the first line that is not blank after trimming begins with
  \<^verbatim>\<open>*** Begin Patch\<close>, \<open>applyPatch\<close> fails after the stat and the open alone, so
  \<^verbatim>\<open>git apply\<close> is not run and no file changes; the error is the wrong-format
  error when every line up to and including the sentinel line is shorter than
  64 KiB, and the scanner's too-long error, wrapped as \<^verbatim>\<open>read patch\<close>, otherwise.
\<close>

theorem sentinel_patch_rejected:
  "(stat_file E w (patch_path root p) = Some e \<longrightarrow>
      applyPatch E root p w = (Some (ErrWrap ''stat patch'' e), emit (EvStat (patch_path root p)) w))
   \<and> (stat_file E w (patch_path root p) = None
      \<and> open_fault E (emit (EvStat (patch_path root p)) w) (patch_path root p) = None
      \<and> read_file E (emit (EvStat (patch_path root p)) w) (patch_path root p) = (content, rerr)
      \<and> scanLines content = blanks @ (raw, t) # rest
      \<and> (\<forall>(l, t') \<in> set blanks. strings_TrimSpace (dropCR l) = [])
      \<and> strings_HasPrefix (strings_TrimSpace (dropCR raw)) ''*** Begin Patch''
      \<longrightarrow> applyPatch E root p w =
            (Some (if \<exists>(l, t') \<in> set (blanks @ [(raw, t)]). bufio_MaxScanTokenSize \<le> length l
                   then ErrWrap (''read patch '' @ patch_path root p) ErrTooLong
                   else wrong_format (patch_path root p)),
             emit (EvOpen (patch_path root p)) (emit (EvStat (patch_path root p)) w))
          \<and> new_events w (snd (applyPatch E root p w)) = [EvStat (patch_path root p), EvOpen (patch_path root p)]
          \<and> files (snd (applyPatch E root p w)) = files w)"
proof (intro conjI impI)
  assume "stat_file E w (patch_path root p) = Some e"
  then show "applyPatch E root p w = (Some (ErrWrap ''stat patch'' e), emit (EvStat (patch_path root p)) w)"
    unfolding applyPatch_cases by simp
next
  define a where "a = patch_path root p"
  assume h: "stat_file E w (patch_path root p) = None
      \<and> open_fault E (emit (EvStat (patch_path root p)) w) (patch_path root p) = None
      \<and> read_file E (emit (EvStat (patch_path root p)) w) (patch_path root p) = (content, rerr)
      \<and> scanLines content = blanks @ (raw, t) # rest
      \<and> (\<forall>(l, t') \<in> set blanks. strings_TrimSpace (dropCR l) = [])
      \<and> strings_HasPrefix (strings_TrimSpace (dropCR raw)) ''*** Begin Patch''"
  then have st: "stat_file E w a = None"
    and op: "open_fault E (emit (EvStat a) w) a = None"
    and rd: "read_file E (emit (EvStat a) w) a = (content, rerr)"
    and sl: "scanLines content = blanks @ (raw, t) # rest"
    and bl: "\<forall>(l, t') \<in> set blanks. strings_TrimSpace (dropCR l) = []"
    and se: "strings_HasPrefix (strings_TrimSpace (dropCR raw)) ''*** Begin Patch''"
    unfolding a_def by simp_all
  have es: "fst (ensureSupportedPatchFormat E a (emit (EvStat a) w)) =
              Some (if \<exists>(l, t') \<in> set (blanks @ [(raw, t)]). bufio_MaxScanTokenSize \<le> length l
                    then ErrWrap (''read patch '' @ a) ErrTooLong else wrong_format a)"
    unfolding ensureSupportedPatchFormat_fst [OF op rd] sl scan_patch_sentinel [OF bl se]
    by simp
  show ap: "applyPatch E root p w =
            (Some (if \<exists>(l, t') \<in> set (blanks @ [(raw, t)]). bufio_MaxScanTokenSize \<le> length l
                   then ErrWrap (''read patch '' @ patch_path root p) ErrTooLong
                   else wrong_format (patch_path root p)),
             emit (EvOpen (patch_path root p)) (emit (EvStat (patch_path root p)) w))"
    unfolding applyPatch_cases a_def [symmetric] st es by simp
  show "new_events w (snd (applyPatch E root p w)) = [EvStat (patch_path root p), EvOpen (patch_path root p)]"
    unfolding ap by (simp add: new_events_def emit_def)
  show "files (snd (applyPatch E root p w)) = files w"
    unfolding ap by (simp add: emit_def)
qed


theorem sentinel_patch_rejected_witness:
  "applyPatch (sample_env sample_http) ''/r'' ''fix.patch'' sentinel_patch_world
     = (Some (wrong_format ''/r/fix.patch''),
        \<lparr>files = [''/r/fix.patch'' \<mapsto> sentinel_patch],
         trace = [EvStat ''/r/fix.patch'', EvOpen ''/r/fix.patch'']\<rparr>)
   \<and> applyPatch (sample_env sample_http) ''/r'' ''gone.patch'' sentinel_patch_world
     = (Some (ErrWrap ''stat patch'' (not_exist ''stat'' ''/r/gone.patch'')),
        \<lparr>files = [''/r/fix.patch'' \<mapsto> sentinel_patch], trace = [EvStat ''/r/gone.patch'']\<rparr>)"
proof -
  let ?E = "sample_env sample_http"
  have pp: "patch_path ''/r'' ''fix.patch'' = ''/r/fix.patch''"
    by (simp add: run_defs)
  have pg: "patch_path ''/r'' ''gone.patch'' = ''/r/gone.patch''"
    by (simp add: run_defs)
  have st: "stat_file ?E sentinel_patch_world ''/r/fix.patch'' = None"
    by (simp add: sample_env_def sentinel_patch_world_def)
  have op: "open_fault ?E (emit (EvStat ''/r/fix.patch'') sentinel_patch_world) ''/r/fix.patch'' = None"
    by (simp add: sample_env_def)
  have rd: "read_file ?E (emit (EvStat ''/r/fix.patch'') sentinel_patch_world) ''/r/fix.patch''
              = (sentinel_patch, None)"
    by (simp add: sample_env_def sentinel_patch_world_def emit_def)
  have sl: "scanLines sentinel_patch
              = [([CHR 0x0D], True), ('' '', True)] @ (''  *** Begin Patch'', True) # [(''*** End Patch'', False)]"
    by (simp add: scanLines_def sentinel_patch_def)
  have bl: "\<forall>(l, t') \<in> set [([CHR 0x0D], True), ('' '', True)]. strings_TrimSpace (dropCR l) = []"
    by (simp add: dropCR_def strings_TrimSpace_def is_space1_def is_space2_def is_space3_def)
  have se: "strings_HasPrefix (strings_TrimSpace (dropCR ''  *** Begin Patch'')) ''*** Begin Patch''"
    by (simp add: dropCR_def strings_TrimSpace_def is_space1_def is_space2_def is_space3_def
        strings_HasPrefix_def)
  have short: "\<not> (\<exists>(l, t') \<in> set ([([CHR 0x0D], True), ('' '', True)] @ [(''  *** Begin Patch'', True)]).
                     bufio_MaxScanTokenSize \<le> length l)"
    by (simp add: bufio_MaxScanTokenSize_def)
  have sg: "stat_file ?E sentinel_patch_world ''/r/gone.patch'' = Some (not_exist ''stat'' ''/r/gone.patch'')"
    by (simp add: sample_env_def sentinel_patch_world_def)
  from sentinel_patch_rejected [where E = ?E and root = "''/r''" and p = "''fix.patch''"
      and w = sentinel_patch_world and content = sentinel_patch and rerr = None
      and blanks = "[([CHR 0x0D], True), ('' '', True)]" and raw = "''  *** Begin Patch''"
      and t = True and rest = "[(''*** End Patch'', False)]"]
  have a1: "applyPatch ?E ''/r'' ''fix.patch'' sentinel_patch_world
     = (Some (wrong_format ''/r/fix.patch''),
        emit (EvOpen ''/r/fix.patch'') (emit (EvStat ''/r/fix.patch'') sentinel_patch_world))"
    unfolding pp using st op rd sl bl se short by simp
  from sentinel_patch_rejected [where E = ?E and root = "''/r''" and p = "''gone.patch''"
      and w = sentinel_patch_world and e = "not_exist ''stat'' ''/r/gone.patch''"]
  have a2: "applyPatch ?E ''/r'' ''gone.patch'' sentinel_patch_world
     = (Some (ErrWrap ''stat patch'' (not_exist ''stat'' ''/r/gone.patch'')),
        emit (EvStat ''/r/gone.patch'') sentinel_patch_world)"
    unfolding pg using sg by simp
  show ?thesis
    unfolding a1 a2 by (simp add: emit_def sentinel_patch_world_def)
qed

section \<open>The fetch: URL, status and body\<close>





section \<open>The destination path and \<^verbatim>\<open>target_dir\<close>\<close>

text \<open>
  C9, at a \<^verbatim>\<open>dst\<close> that begins with \<^verbatim>\<open>..\<close>: with the root \<^verbatim>\<open>/r\<close> and the target
  directory \<^verbatim>\<open>out\<close>, the entry whose \<^verbatim>\<open>dst\<close> is \<^verbatim>\<open>../c.js\<close> is written to \<^verbatim>\<open>/r/c.js\<close>,
  which is not under \<^verbatim>\<open>/r/out\<close>: \<^verbatim>\<open>filepath.Join\<close> cleans the joined path, and the
  \<^verbatim>\<open>..\<close> removes the target directory from it.
\<close>

theorem dst_parent_escapes_counterexample:
  "filepath_Join [''/r'', TargetDir sample_config] = ''/r/out''
   \<and> processFile (sample_env sample_http) ''/r'' sample_config entry_up False False sample_world
     = (None,
        \<lparr>files = [''/r/out/a/b.js'' \<mapsto> ''old'', ''/r/fix.patch'' \<mapsto> ''diff --git a/x b/x'',
                  ''/r/c.js'' \<mapsto> ''console.log(1)''],
         trace = [EvPrint '' - c.js -> /r/c.js\<newline>'',
                  EvHttpGet (wptRepoRawURL @ ''/deadbeef/c.js''),
                  EvMkdirAll ''/r'', EvCreateTemp ''/r/.wpt-download-1234'',
                  EvWrite ''/r/.wpt-download-1234'' ''console.log(1)'',
                  EvSync ''/r/.wpt-download-1234'',
                  EvRename ''/r/.wpt-download-1234'' ''/r/c.js'',
                  EvRemove ''/r/.wpt-download-1234'']\<rparr>)
   \<and> \<not> strings_HasPrefix ''/r/c.js'' ''/r/out''"
  by (simp add: sample_defs entry_up_def run_defs fun_eq_iff)

text \<open>
  C9: the destination of an entry is its \<^verbatim>\<open>dst\<close> joined to the join of the root
  and the target directory, so \<^verbatim>\<open>dst\<close> is read relative to that directory; in a
  validated configuration any number of leading separators of \<^verbatim>\<open>dst\<close> changes
  nothing, so an absolute \<^verbatim>\<open>dst\<close> is not an absolute path of the file system.
  When the root is absolute, as \<^verbatim>\<open>filepath.Abs\<close> makes it, and no element of \<^verbatim>\<open>dst\<close>
  is \<^verbatim>\<open>..\<close>, the destination lies under the join of the root and the target
  directory. That destination is the path written: every rename of the
  entry's run is onto it, and a run that returns no error has renamed a
  temporary file onto it.
\<close>

theorem dst_relative_to_target_dir:
  "file_dest root cfg f = filepath_Join [filepath_Join [root, TargetDir cfg], Dst f]
   \<and> (validate cfg = None \<longrightarrow>
        file_dest root cfg (f\<lparr>Dst := replicate n CHR ''/'' @ Dst f\<rparr>) = file_dest root cfg f)
   \<and> (filepath_IsAbs root \<and> ''..'' \<notin> set (split_sep (Dst f)) \<longrightarrow>
        resolved_under (filepath_Join [root, TargetDir cfg]) (file_dest root cfg f))
   \<and> set (List.map_filter rename_target (new_events w (snd (processFile E root cfg f skip dry w))))
        \<subseteq> {file_dest root cfg f}
   \<and> (fst (processFile E root cfg f skip False w) = None \<longrightarrow>
        (\<exists>tmp. EvRename tmp (file_dest root cfg f)
                 \<in> set (new_events w (snd (processFile E root cfg f skip False w)))))"
proof (intro conjI)
  show "file_dest root cfg f = filepath_Join [filepath_Join [root, TargetDir cfg], Dst f]"
    unfolding file_dest_def filepath_FromSlash_def by (rule filepath_Join3)
  show "validate cfg = None \<longrightarrow>
        file_dest root cfg (f\<lparr>Dst := replicate n CHR ''/'' @ Dst f\<rparr>) = file_dest root cfg f"
  proof
    assume "validate cfg = None"
    then have "TargetDir cfg \<noteq> []" by (auto simp: validate_def split: if_splits)
    then have "root \<noteq> [] \<or> TargetDir cfg \<noteq> []" by simp
    from filepath_Join_leading_slashes [OF this, of n "Dst f"]
    show "file_dest root cfg (f\<lparr>Dst := replicate n CHR ''/'' @ Dst f\<rparr>) = file_dest root cfg f"
      by (simp add: file_dest_def filepath_FromSlash_def)
  qed
  show "filepath_IsAbs root \<and> ''..'' \<notin> set (split_sep (Dst f)) \<longrightarrow>
        resolved_under (filepath_Join [root, TargetDir cfg]) (file_dest root cfg f)"
  proof
    assume "filepath_IsAbs root \<and> ''..'' \<notin> set (split_sep (Dst f))"
    then have ab: "filepath_IsAbs root" and nd: "''..'' \<notin> set (split_sep (Dst f))" by simp_all
    show "resolved_under (filepath_Join [root, TargetDir cfg]) (file_dest root cfg f)"
      unfolding file_dest_def filepath_FromSlash_def by (rule filepath_Join_under [OF ab nd])
  qed
  show "set (List.map_filter rename_target (new_events w (snd (processFile E root cfg f skip dry w))))
        \<subseteq> {file_dest root cfg f}"
    by (rule processFile_renames)
  show "fst (processFile E root cfg f skip False w) = None \<longrightarrow>
        (\<exists>tmp. EvRename tmp (file_dest root cfg f)
                 \<in> set (new_events w (snd (processFile E root cfg f skip False w))))"
    using processFile_success_rename [of E root cfg f skip w] by (rule impI)
qed


theorem dst_relative_to_target_dir_witness:
  "file_dest ''/r'' sample_config (entry_a\<lparr>Dst := ''///a/b.js''\<rparr>) = ''/r/out/a/b.js''
   \<and> resolved_under ''/r/out'' ''/r/out/a/b.js''
   \<and> (\<exists>tmp. EvRename tmp ''/r/out/a/b.js''
               \<in> set (new_events sample_world
                        (snd (processFile (sample_env sample_http) ''/r'' sample_config entry_a True False
                                sample_world))))"
proof -
  let ?E = "sample_env sample_http"
  have da: "file_dest ''/r'' sample_config entry_a = ''/r/out/a/b.js''"
    by (simp add: entry_a_def sample_config_def run_defs)
  have ba: "filepath_Join [''/r'', TargetDir sample_config] = ''/r/out''"
    by (simp add: sample_config_def run_defs)
  have d3: "replicate (Suc (Suc 0)) CHR ''/'' @ Dst entry_a = ''///a/b.js''"
    by (simp add: entry_a_def)
  have v: "validate sample_config = None" by (simp add: validate_def sample_config_def)
  have ab: "filepath_IsAbs ''/r''" by (simp add: filepath_IsAbs_def strings_HasPrefix_def)
  have nd: "''..'' \<notin> set (split_sep (Dst entry_a))" by (simp add: entry_a_def)
  have run: "fst (processFile ?E ''/r'' sample_config entry_a True False sample_world) = None"
    by (simp add: sample_defs run_defs)
  note t = dst_relative_to_target_dir [where root = "''/r''" and cfg = sample_config and f = entry_a
      and n = "Suc (Suc 0)" and E = ?E and skip = True and dry = False and w = sample_world]
  from t v have c1: "file_dest ''/r'' sample_config (entry_a\<lparr>Dst := ''///a/b.js''\<rparr>) = ''/r/out/a/b.js''"
    unfolding d3 da by blast
  from t ab nd have c2: "resolved_under ''/r/out'' ''/r/out/a/b.js''"
    unfolding da ba by blast
  from t run have c3: "\<exists>tmp. EvRename tmp ''/r/out/a/b.js''
               \<in> set (new_events sample_world
                        (snd (processFile ?E ''/r'' sample_config entry_a True False sample_world)))"
    unfolding da by blast
  from c1 c2 c3 show ?thesis by (intro conjI)
qed

section \<open>Entries are not validated\<close>



end
